theory Spec2Isabelle
  imports Main "HOL-Library.Word"
begin

unbundle bit_operations_syntax

section \<open>Python values\<close>

text \<open>
  A Python \<open>bytes\<close> object is a list of 8-bit words. A Python \<open>str\<close> is a list of Unicode
  code points (\<open>pystr\<close>, the numbers from 0 to \<open>0x10FFFF\<close>); the ASCII-only strings the code builds itself (hexadecimal and
  binary digit strings, Base58 and CashAddr text) are Isabelle strings. Python integers are
  unbounded, hence \<open>int\<close>.
\<close>

type_synonym byte = "8 word"
type_synonym bytes = "byte list"
type_synonym pystr = "int list"

definition lit :: "string \<Rightarrow> pystr" where
  "lit s = map of_char s"

text \<open>The exceptions the modelled code can raise. \<open>LibraryError\<close> stands for an exception
  raised inside the elliptic-curve library (a malformed point or key).\<close>

datatype pyerr =
    PyException pystr
  | InvalidSeedException pystr
  | ValueError
  | OverflowError
  | IndexError
  | AttributeError
  | UnicodeEncodeError
  | LibraryError

text \<open>\<open>int.from_bytes(b, "big")\<close> and \<open>n.to_bytes(length, "big")\<close>; the latter raises
  \<open>OverflowError\<close> for a negative number and for one that does not fit.\<close>

definition int_from_bytes :: "bytes \<Rightarrow> int" where
  "int_from_bytes b = foldl (\<lambda>a x. a * 256 + uint x) 0 b"

fun be_bytes :: "nat \<Rightarrow> int \<Rightarrow> bytes" where
  "be_bytes 0 n = []"
| "be_bytes (Suc k) n = be_bytes k (n div 256) @ [word_of_int n]"

definition int_to_bytes :: "int \<Rightarrow> nat \<Rightarrow> pyerr + bytes" where
  "int_to_bytes n len =
     (if n < 0 \<or> 256 ^ len \<le> n then Inl OverflowError else Inr (be_bytes len n))"

text \<open>Indexing a sequence with a Python integer: a negative index counts from the end,
  an index out of range raises \<open>IndexError\<close>.\<close>

definition py_getitem :: "'a list \<Rightarrow> int \<Rightarrow> pyerr + 'a" where
  "py_getitem xs i =
     (if 0 \<le> i \<and> i < int (length xs) then Inr (xs ! nat i)
      else if i < 0 \<and> - int (length xs) \<le> i then Inr (xs ! nat (int (length xs) + i))
      else Inl IndexError)"

text \<open>Sequencing of computations that may raise: the first exception is the result.\<close>

definition ebind :: "pyerr + 'a \<Rightarrow> ('a \<Rightarrow> pyerr + 'b) \<Rightarrow> pyerr + 'b" where
  "ebind m f = (case m of Inl e \<Rightarrow> Inl e | Inr x \<Rightarrow> f x)"

text \<open>A bytes literal such as \<open>b"mnemonic"\<close>.\<close>

definition ascii_bytes :: "string \<Rightarrow> bytes" where
  "ascii_bytes s = map (\<lambda>c. of_nat (of_char c)) s"

text \<open>\<open>xs.index(x)\<close>: the first position of \<open>x\<close>, \<open>None\<close> where Python raises
  \<open>ValueError\<close>.\<close>

definition list_index :: "'a list \<Rightarrow> 'a \<Rightarrow> nat option" where
  "list_index xs x =
     (if x \<in> set xs then Some (length (takeWhile (\<lambda>y. y \<noteq> x) xs)) else None)"

section \<open>External primitives\<close>

text \<open>
  The hash functions (\<open>hashlib\<close>, \<open>hmac\<close>) and the secp256k1 operations (\<open>ecdsa\<close>) are
  libraries outside the repository. The model takes them as a record of functions, so every
  theorem holds for whatever these functions compute.
  \<^item> \<open>sha256\<close>: \<open>hashlib.sha256(d).digest()\<close>;
  \<^item> \<open>ripemd160\<close>: \<open>hashlib.new("ripemd160", d).digest()\<close>;
  \<^item> \<open>hmac_sha512\<close>: \<open>hmac.new(key, d, hashlib.sha512).digest()\<close>;
  \<^item> \<open>pbkdf2_hmac\<close>: \<open>hashlib.pbkdf2_hmac(algorithm, password, salt, iterations, dklen)\<close>;
  \<^item> \<open>pubkey_compressed\<close>:
    \<open>SigningKey.from_string(k, curve=SECP256k1).verifying_key.to_string("compressed")\<close>;
  \<^item> \<open>point_from_string\<close>: \<open>VerifyingKey.from_string(b, curve=SECP256k1).pubkey.point\<close>;
  \<^item> \<open>generator_mul_add\<close>: \<open>generator * k + point\<close>;
  \<^item> \<open>point_compressed\<close>:
    \<open>VerifyingKey.from_public_point(p, curve=SECP256k1).to_string("compressed")\<close>.
\<close>

record 'pt prims =
  sha256 :: "bytes \<Rightarrow> bytes"
  ripemd160 :: "bytes \<Rightarrow> bytes"
  hmac_sha512 :: "bytes \<Rightarrow> bytes \<Rightarrow> bytes"
  pbkdf2_hmac :: "string \<Rightarrow> bytes \<Rightarrow> bytes \<Rightarrow> nat \<Rightarrow> nat \<Rightarrow> bytes"
  pubkey_compressed :: "bytes \<Rightarrow> pyerr + bytes"
  point_from_string :: "bytes \<Rightarrow> pyerr + 'pt"
  generator_mul_add :: "int \<Rightarrow> 'pt \<Rightarrow> 'pt"
  point_compressed :: "'pt \<Rightarrow> pyerr + bytes"

section \<open>BitcoinFunctions: bit regrouping and the CashAddr checksum\<close>

definition hash160 :: "('pt, 'x) prims_scheme \<Rightarrow> bytes \<Rightarrow> bytes" where
  "hash160 P pubkey = ripemd160 P (sha256 P pubkey)"

text \<open>
  The inner \<open>while bits >= to_bits\<close> loop of \<open>convert_bits\<close>. With \<open>to_bits = 0\<close> the
  condition stays true and the loop never ends: that is the result \<open>None\<close>.
\<close>

function convert_bits_while :: "nat \<Rightarrow> int \<Rightarrow> nat \<Rightarrow> int list \<Rightarrow> (nat \<times> int list) option" where
  "convert_bits_while to_bits acc bits ret =
     (if to_bits \<le> bits then
        (if to_bits = 0 then None
         else convert_bits_while to_bits acc (bits - to_bits)
                (ret @ [drop_bit (bits - to_bits) acc AND (push_bit to_bits 1 - 1)]))
      else Some (bits, ret))"
  by pat_completeness auto
termination
  by (relation "measure (\<lambda>(to_bits, acc, bits, ret). bits)") auto

declare convert_bits_while.simps [simp del]

text \<open>The \<open>for value in data\<close> loop, on the state \<open>(acc, bits, ret)\<close>.\<close>

fun convert_bits_for ::
  "nat \<Rightarrow> nat \<Rightarrow> int list \<Rightarrow> int \<Rightarrow> nat \<Rightarrow> int list \<Rightarrow> (int \<times> nat \<times> int list) option" where
  "convert_bits_for from_bits to_bits [] acc bits ret = Some (acc, bits, ret)"
| "convert_bits_for from_bits to_bits (v # data) acc bits ret =
     (case convert_bits_while to_bits (push_bit from_bits acc OR v) (bits + from_bits) ret of
        None \<Rightarrow> None
      | Some (bits', ret') \<Rightarrow>
          convert_bits_for from_bits to_bits data (push_bit from_bits acc OR v) bits' ret')"

definition convert_bits :: "int list \<Rightarrow> nat \<Rightarrow> nat \<Rightarrow> bool \<Rightarrow> int list option" where
  "convert_bits data from_bits to_bits pad =
     (case convert_bits_for from_bits to_bits data 0 0 [] of
        None \<Rightarrow> None
      | Some (acc, bits, ret) \<Rightarrow>
          Some (if pad \<and> bits \<noteq> 0
                then ret @ [push_bit (to_bits - bits) acc AND (push_bit to_bits 1 - 1)]
                else ret))"

definition polymod_step :: "int \<Rightarrow> int \<Rightarrow> int" where
  "polymod_step c d =
     (let c0 = drop_bit 35 c;
          c1 = push_bit 5 (c AND 0x07FFFFFFFF) XOR d;
          c2 = (if c0 AND 0x01 \<noteq> 0 then c1 XOR 0x98F2BC8E61 else c1);
          c3 = (if c0 AND 0x02 \<noteq> 0 then c2 XOR 0x79B76D99E2 else c2);
          c4 = (if c0 AND 0x04 \<noteq> 0 then c3 XOR 0xF33E5FB3C4 else c3);
          c5 = (if c0 AND 0x08 \<noteq> 0 then c4 XOR 0xAE2EABE2A8 else c4)
      in if c0 AND 0x10 \<noteq> 0 then c5 XOR 0x1E4F43E470 else c5)"

definition polymod :: "int list \<Rightarrow> int" where
  "polymod vs = foldl polymod_step 1 vs XOR 1"

definition CHARSET :: string where
  "CHARSET = ''qpzry9x8gf2tvdw0s3jn54khce6mua7l''"

fun encode_base32 :: "int list \<Rightarrow> pyerr + string" where
  "encode_base32 [] = Inr []"
| "encode_base32 (d # data) =
     (case py_getitem CHARSET d of
        Inl e \<Rightarrow> Inl e
      | Inr c \<Rightarrow> (case encode_base32 data of Inl e \<Rightarrow> Inl e | Inr cs \<Rightarrow> Inr (c # cs)))"

definition create_checksum :: "string \<Rightarrow> int list \<Rightarrow> int list" where
  "create_checksum prefix payload =
     (let vs = map (\<lambda>x. of_char x AND 0x1F) prefix @ [0] @ payload;
          polymod_result = polymod (vs @ [0, 0, 0, 0, 0, 0, 0, 0])
      in map (\<lambda>i. drop_bit (5 * (7 - i)) polymod_result AND 0x1F) [0..<8])"

definition public_key_to_cashaddr_address ::
  "('pt, 'x) prims_scheme \<Rightarrow> bytes \<Rightarrow> (pyerr + string) option" where
  "public_key_to_cashaddr_address P pubkey =
     (let payload = [0] @ hash160 P pubkey in
      case convert_bits (map uint payload) 8 5 True of
        None \<Rightarrow> None
      | Some payload_5bit \<Rightarrow>
          Some (case encode_base32 (payload_5bit @ create_checksum ''bitcoincash'' payload_5bit) of
                  Inl e \<Rightarrow> Inl e
                | Inr s \<Rightarrow> Inr (''bitcoincash:'' @ s)))"


section \<open>Text encodings\<close>

text \<open>\<open>str.encode("utf-8")\<close>: one to four bytes per code point; a surrogate code point
  cannot be encoded and raises \<open>UnicodeEncodeError\<close>. A number that is no code point is
  treated the same way.\<close>

definition utf8_char :: "int \<Rightarrow> pyerr + bytes" where
  "utf8_char c =
     (if c < 0 then Inl UnicodeEncodeError
      else if c < 0x80 then Inr [word_of_int c]
      else if c < 0x800 then Inr [word_of_int (0xC0 + c div 64), word_of_int (0x80 + c mod 64)]
      else if 0xD800 \<le> c \<and> c \<le> 0xDFFF then Inl UnicodeEncodeError
      else if c < 0x10000 then
        Inr [word_of_int (0xE0 + c div 4096), word_of_int (0x80 + c div 64 mod 64),
             word_of_int (0x80 + c mod 64)]
      else if c < 0x110000 then
        Inr [word_of_int (0xF0 + c div 262144), word_of_int (0x80 + c div 4096 mod 64),
             word_of_int (0x80 + c div 64 mod 64), word_of_int (0x80 + c mod 64)]
      else Inl UnicodeEncodeError)"

fun utf8_encode :: "pystr \<Rightarrow> pyerr + bytes" where
  "utf8_encode [] = Inr []"
| "utf8_encode (c # cs) =
     (case utf8_char c of
        Inl e \<Rightarrow> Inl e
      | Inr b \<Rightarrow> (case utf8_encode cs of Inl e \<Rightarrow> Inl e | Inr bs \<Rightarrow> Inr (b @ bs)))"

text \<open>\<open>sep.join(words)\<close>.\<close>

fun str_join :: "'a list \<Rightarrow> 'a list list \<Rightarrow> 'a list" where
  "str_join sep [] = []"
| "str_join sep [w] = w"
| "str_join sep (w # ws) = w @ sep @ str_join sep ws"

text \<open>\<open>bytes.hex()\<close> and \<open>bytes.fromhex\<close>. The latter skips ASCII whitespace between
  two-digit groups and raises \<open>ValueError\<close> on anything else that is not a pair of
  hexadecimal digits.\<close>

definition hex_digit :: "nat \<Rightarrow> char" where
  "hex_digit n = ''0123456789abcdef'' ! n"

definition bytes_hex :: "bytes \<Rightarrow> string" where
  "bytes_hex b = concat (map (\<lambda>x. [hex_digit (unat x div 16), hex_digit (unat x mod 16)]) b)"

definition hex_value :: "char \<Rightarrow> nat option" where
  "hex_value c =
     (let n = (of_char c :: nat) in
      if 48 \<le> n \<and> n \<le> 57 then Some (n - 48)
      else if 97 \<le> n \<and> n \<le> 102 then Some (n - 87)
      else if 65 \<le> n \<and> n \<le> 70 then Some (n - 55)
      else None)"

definition ascii_space :: "char \<Rightarrow> bool" where
  "ascii_space c = ((of_char c :: nat) \<in> {9, 10, 11, 12, 13, 32})"

fun bytes_fromhex :: "string \<Rightarrow> pyerr + bytes" where
  "bytes_fromhex [] = Inr []"
| "bytes_fromhex [c] = (if ascii_space c then Inr [] else Inl ValueError)"
| "bytes_fromhex (c # d # cs) =
     (if ascii_space c then bytes_fromhex (d # cs)
      else case (hex_value c, hex_value d) of
             (Some h, Some l) \<Rightarrow>
               (case bytes_fromhex cs of Inl e \<Rightarrow> Inl e | Inr bs \<Rightarrow> Inr (of_nat (h * 16 + l) # bs))
           | _ \<Rightarrow> Inl ValueError)"

text \<open>\<open>bin(n)[2:]\<close> for a number that is not negative, \<open>s.zfill(width)\<close> and \<open>int(s, 2)\<close>
  on strings of binary digits.\<close>

function bin_digits :: "int \<Rightarrow> string" where
  "bin_digits n =
     (if n < 2 then [if n = 1 then CHR ''1'' else CHR ''0'']
      else bin_digits (n div 2) @ [if n mod 2 = 1 then CHR ''1'' else CHR ''0''])"
  by pat_completeness auto
termination
  by (relation "measure nat") auto

declare bin_digits.simps [simp del]

definition zfill :: "nat \<Rightarrow> string \<Rightarrow> string" where
  "zfill width s = replicate (width - length s) CHR ''0'' @ s"

definition int_of_bin :: "string \<Rightarrow> int" where
  "int_of_bin s = foldl (\<lambda>a c. 2 * a + (if c = CHR ''1'' then 1 else 0)) 0 s"

section \<open>The \<open>ecdsa\<close> number conversions and the curve order\<close>

definition curve_order :: int where
  "curve_order = 0xFFFFFFFFFFFFFFFFFFFFFFFFFFFFFFFEBAAEDCE6AF48A03BBFD25E8CD0364141"

text \<open>\<open>ecdsa.util.string_to_number\<close> is \<open>int(binascii.hexlify(string), 16)\<close>, which raises
  \<open>ValueError\<close> on the empty string. \<open>number_to_string(num, order)\<close> writes \<open>num\<close> on as
  many bytes as \<open>order\<close> has (32 for secp256k1).\<close>

definition string_to_number :: "bytes \<Rightarrow> pyerr + int" where
  "string_to_number b = (if b = [] then Inl ValueError else Inr (int_from_bytes b))"

definition number_to_string :: "int \<Rightarrow> pyerr + bytes" where
  "number_to_string num = (if num < 0 \<or> 256 ^ 32 \<le> num then Inl ValueError else Inr (be_bytes 32 num))"

section \<open>The \<open>base58\<close> library\<close>

definition BITCOIN_ALPHABET :: string where
  "BITCOIN_ALPHABET = ''123456789ABCDEFGHJKLMNPQRSTUVWXYZabcdefghijkmnopqrstuvwxyz''"

text \<open>\<open>b58encode_int\<close> with \<open>default_one=False\<close>: the base-58 digits of a number, most
  significant first, the empty string for 0. Its only caller passes the value of a byte
  string, which is never negative.\<close>

function b58encode_int :: "int \<Rightarrow> string" where
  "b58encode_int i =
     (if i \<le> 0 then [] else b58encode_int (i div 58) @ [BITCOIN_ALPHABET ! nat (i mod 58)])"
  by pat_completeness auto
termination
  by (relation "measure nat") auto

declare b58encode_int.simps [simp del]

text \<open>\<open>b58encode\<close>: one \<open>1\<close> per leading zero byte, then the digits of the rest.\<close>

definition b58encode :: "bytes \<Rightarrow> string" where
  "b58encode v =
     (let stripped = dropWhile (\<lambda>b. b = 0) v
      in replicate (length v - length stripped) (BITCOIN_ALPHABET ! 0)
           @ b58encode_int (int_from_bytes stripped))"

definition b58_index :: "char \<Rightarrow> int option" where
  "b58_index c =
     (if c \<in> set BITCOIN_ALPHABET
      then Some (int (length (takeWhile (\<lambda>x. x \<noteq> c) BITCOIN_ALPHABET))) else None)"

text \<open>\<open>b58decode_int\<close>: a character outside the alphabet raises \<open>ValueError\<close>.\<close>

fun b58decode_int :: "int \<Rightarrow> string \<Rightarrow> pyerr + int" where
  "b58decode_int decimal [] = Inr decimal"
| "b58decode_int decimal (c # cs) =
     (case b58_index c of
        None \<Rightarrow> Inl ValueError
      | Some d \<Rightarrow> b58decode_int (decimal * 58 + d) cs)"

text \<open>The shortest big-endian byte string of a number that is not negative:
  \<open>acc.to_bytes((acc.bit_length() + 7) // 8, "big")\<close>.\<close>

function min_bytes :: "int \<Rightarrow> bytes" where
  "min_bytes n = (if n \<le> 0 then [] else min_bytes (n div 256) @ [word_of_int n])"
  by pat_completeness auto
termination
  by (relation "measure nat") auto

declare min_bytes.simps [simp del]

text \<open>\<open>str.rstrip()\<close> on the code points below 256 (the whitespace among them).\<close>

definition py_space :: "char \<Rightarrow> bool" where
  "py_space c = ((of_char c :: nat) \<in> {9, 10, 11, 12, 13, 28, 29, 30, 31, 32, 133, 160})"

definition rstrip :: "string \<Rightarrow> string" where
  "rstrip s = rev (dropWhile py_space (rev s))"

text \<open>\<open>b58decode\<close>: trailing whitespace is dropped, a character outside ASCII raises
  \<open>UnicodeEncodeError\<close>, each leading \<open>1\<close> is a zero byte.\<close>

definition b58decode :: "string \<Rightarrow> pyerr + bytes" where
  "b58decode v =
     (let v1 = rstrip v in
      if \<exists>c \<in> set v1. 128 \<le> (of_char c :: nat) then Inl UnicodeEncodeError
      else
        let stripped = dropWhile (\<lambda>c. c = BITCOIN_ALPHABET ! 0) v1 in
        case b58decode_int 0 stripped of
          Inl e \<Rightarrow> Inl e
        | Inr acc \<Rightarrow> Inr (replicate (length v1 - length stripped) 0 @ min_bytes acc))"


section \<open>BitcoinFunctions: seed, key derivation and extended keys\<close>

definition seed_generator :: "('pt, 'x) prims_scheme \<Rightarrow> pystr \<Rightarrow> pystr \<Rightarrow> pyerr + string" where
  "seed_generator P seed passphrase =
     ebind (utf8_encode seed) (\<lambda>mnemonic_bytes.
     ebind (utf8_encode passphrase) (\<lambda>passphrase_bytes.
       let salt_bytes = ascii_bytes ''mnemonic'' @ passphrase_bytes;
           bytes_seed = pbkdf2_hmac P ''sha512'' mnemonic_bytes salt_bytes 2048 64
       in Inr (bytes_hex bytes_seed)))"

definition get_private_and_code ::
  "('pt, 'x) prims_scheme \<Rightarrow> string \<Rightarrow> pyerr + bytes \<times> bytes" where
  "get_private_and_code P seed =
     ebind (bytes_fromhex seed) (\<lambda>seed_bytes.
       let hmac_hash = hmac_sha512 P (ascii_bytes ''Bitcoin seed'') seed_bytes
       in Inr (take 32 hmac_hash, drop 32 hmac_hash))"

definition fingerprint_bytes :: "('pt, 'x) prims_scheme \<Rightarrow> bytes \<Rightarrow> bytes" where
  "fingerprint_bytes P compressed_master_public_key_bytes =
     take 4 (ripemd160 P (sha256 P compressed_master_public_key_bytes))"

definition child_key_hardened ::
  "('pt, 'x) prims_scheme \<Rightarrow> bytes \<Rightarrow> bytes \<Rightarrow> int \<Rightarrow> bool \<Rightarrow> pyerr + bytes \<times> bytes" where
  "child_key_hardened P parent_key parent_chain_code index hardened =
     (let index1 = (if hardened then index OR 0x80000000 else index) in
      ebind (int_to_bytes index1 4) (\<lambda>index_bytes.
        let data = [0] @ parent_key @ index_bytes;
            I = hmac_sha512 P parent_chain_code data;
            Il = take 32 I;
            chain_code = drop 32 I
        in ebind (string_to_number Il) (\<lambda>number_Il.
           ebind (string_to_number parent_key) (\<lambda>number_parent.
           ebind (number_to_string ((number_Il + number_parent) mod curve_order)) (\<lambda>derivet_key.
             Inr (derivet_key, chain_code))))))"

definition derivation_m_44_145_0 ::
  "('pt, 'x) prims_scheme \<Rightarrow> string \<Rightarrow> pyerr + bytes \<times> bytes \<times> bytes \<times> bytes \<times> bytes \<times> bytes" where
  "derivation_m_44_145_0 P hexa_seed =
     ebind (get_private_and_code P hexa_seed) (\<lambda>(private_master_key, private_master_code).
     ebind (child_key_hardened P private_master_key private_master_code 44 True)
       (\<lambda>(purpose_key, purpose_chain_code).
     ebind (child_key_hardened P purpose_key purpose_chain_code 145 True)
       (\<lambda>(coin_type_key, coin_type_chain_code).
     ebind (child_key_hardened P coin_type_key coin_type_chain_code 0 True)
       (\<lambda>(account_key, account_chain_code).
     ebind (pubkey_compressed P account_key) (\<lambda>account_public_key.
     ebind (int_to_bytes 3 1) (\<lambda>depth.
     ebind (pubkey_compressed P coin_type_key) (\<lambda>father_acount_publickey.
     ebind (int_to_bytes (0 OR 0x80000000) 4) (\<lambda>child_index.
       Inr (depth, fingerprint_bytes P father_acount_publickey, child_index,
            account_chain_code, account_key, account_public_key)))))))))"

definition xpriv_encode ::
  "('pt, 'x) prims_scheme \<Rightarrow> bytes \<Rightarrow> bytes \<Rightarrow> bytes \<Rightarrow> bytes \<Rightarrow> bytes \<Rightarrow> string" where
  "xpriv_encode P depth father_fingerprint child_index account_chain_code account_key =
     (let version = [0x04, 0x88, 0xad, 0xe4];
          data = version @ depth @ father_fingerprint @ child_index @ account_chain_code
                   @ [0x00] @ account_key;
          checksum = take 4 (sha256 P (sha256 P data))
      in b58encode (data @ checksum))"

definition xpub_encode ::
  "('pt, 'x) prims_scheme \<Rightarrow> bytes \<Rightarrow> bytes \<Rightarrow> bytes \<Rightarrow> bytes \<Rightarrow> bytes \<Rightarrow> string" where
  "xpub_encode P depth father_fingerprint child_index account_chain_code account_public_key =
     (let version = [0x04, 0x88, 0xb2, 0x1e];
          data = version @ depth @ father_fingerprint @ child_index @ account_chain_code
                   @ account_public_key;
          checksum = take 4 (sha256 P (sha256 P data))
      in b58encode (data @ checksum))"

definition fingerprint_hex :: "('pt, 'x) prims_scheme \<Rightarrow> string \<Rightarrow> pyerr + string" where
  "fingerprint_hex P hexa_seed =
     ebind (derivation_m_44_145_0 P hexa_seed)
       (\<lambda>(depth, father_fingerprint, child_index, account_chain_code, account_key,
           account_public_key).
     ebind (pubkey_compressed P account_key) (\<lambda>public_key_compressed.
       Inr (bytes_hex (take 4 (ripemd160 P (sha256 P public_key_compressed))))))"

text \<open>The slice \<open>xpub_bytes[45:-4]\<close> stops four bytes before the end (at 0 for fewer than
  four bytes), which is what the truncating subtraction on \<open>nat\<close> computes.\<close>

definition xpub_decode ::
  "string \<Rightarrow> pyerr + bytes \<times> bytes \<times> bytes \<times> bytes \<times> bytes \<times> bytes" where
  "xpub_decode xpub =
     ebind (b58decode xpub) (\<lambda>xpub_bytes.
       Inr (take 4 xpub_bytes,
            take 1 (drop 4 xpub_bytes),
            take 4 (drop 5 xpub_bytes),
            take 4 (drop 9 xpub_bytes),
            take 32 (drop 13 xpub_bytes),
            drop 45 (take (length xpub_bytes - 4) xpub_bytes)))"

definition derive_public_child_key ::
  "('pt, 'x) prims_scheme \<Rightarrow> bytes \<Rightarrow> bytes \<Rightarrow> int \<Rightarrow> pyerr + bytes \<times> bytes" where
  "derive_public_child_key P parent_public_key_bytes parent_chain_code index =
     ebind (int_to_bytes index 4) (\<lambda>index_bytes.
       let data = parent_public_key_bytes @ index_bytes;
           I = hmac_sha512 P parent_chain_code data;
           IL = take 32 I;
           IR = drop 32 I;
           IL_int = int_from_bytes IL
       in if curve_order \<le> IL_int then Inl ValueError
          else
            ebind (point_from_string P parent_public_key_bytes) (\<lambda>parent_point.
            ebind (point_compressed P (generator_mul_add P IL_int parent_point))
              (\<lambda>child_public_key_bytes. Inr (child_public_key_bytes, IR))))"

definition public_key_to_legacy_address :: "('pt, 'x) prims_scheme \<Rightarrow> bytes \<Rightarrow> string" where
  "public_key_to_legacy_address P public_key_bytes =
     (let ripemd160_hash = ripemd160 P (sha256 P public_key_bytes);
          versioned_hash = [0x00] @ ripemd160_hash;
          checksum = take 4 (sha256 P (sha256 P versioned_hash))
      in b58encode (versioned_hash @ checksum))"

definition xpub_to_legacy_address ::
  "('pt, 'x) prims_scheme \<Rightarrow> string \<Rightarrow> int \<Rightarrow> pyerr + string" where
  "xpub_to_legacy_address P xpub address_index =
     ebind (xpub_decode xpub)
       (\<lambda>(version, depth, fingerprint, child_number, chain_code_chain, public_key_chain).
     ebind (derive_public_child_key P public_key_chain chain_code_chain 0)
       (\<lambda>(child_public_chain, child_chain_chain).
     ebind (derive_public_child_key P child_public_chain child_chain_chain address_index)
       (\<lambda>(child_public_address_index, child_chain_address_index).
       Inr (public_key_to_legacy_address P child_public_address_index))))"

section \<open>Seed\<close>

text \<open>The loop of \<open>_validate_mnemonic\<close> over the words: each word's position in the word
  list as eleven binary digits, or \<open>InvalidSeedException\<close> for the first word that is not
  in the list. The word list is the content of \<open>bip39.txt\<close>, a resource that is not part of
  the sources: it is a parameter.\<close>

fun mnemonic_word_bits :: "pystr list \<Rightarrow> pystr list \<Rightarrow> pyerr + string list" where
  "mnemonic_word_bits wordlist [] = Inr []"
| "mnemonic_word_bits wordlist (word # ws) =
     (case list_index wordlist word of
        None \<Rightarrow> Inl (InvalidSeedException (lit ''Word '' @ [39] @ word @ [39] @ lit '' not in wordlist''))
      | Some index \<Rightarrow>
          ebind (mnemonic_word_bits wordlist ws) (\<lambda>rest.
            Inr (zfill 11 (bin_digits (int index)) # rest)))"

definition checksum_bits_of :: "nat \<Rightarrow> nat option" where
  "checksum_bits_of len =
     (if len = 132 then Some 4
      else if len = 165 then Some 5
      else if len = 198 then Some 6
      else if len = 231 then Some 7
      else if len = 264 then Some 8
      else None)"

definition validate_mnemonic ::
  "('pt, 'x) prims_scheme \<Rightarrow> pystr list \<Rightarrow> pystr list \<Rightarrow> pyerr + bool" where
  "validate_mnemonic P wordlist mnemonic =
     ebind (mnemonic_word_bits wordlist mnemonic) (\<lambda>list_index_bi.
       let bin_mnemonic = concat list_index_bi;
           len = length bin_mnemonic
       in case checksum_bits_of len of
            None \<Rightarrow> Inl (InvalidSeedException (lit ''Invalid mnemonic length''))
          | Some checksum_bits \<Rightarrow>
              let checksum = drop (len - checksum_bits) bin_mnemonic;
                  entropy_bits = take (len - checksum_bits) bin_mnemonic
              in if length entropy_bits mod 8 \<noteq> 0
                 then Inl (InvalidSeedException (lit ''Invalid entropy length''))
                 else
                   (case int_to_bytes (int_of_bin entropy_bits) (length entropy_bits div 8) of
                      Inl e \<Rightarrow>
                        Inl (InvalidSeedException (lit ''Validation error: int too big to convert''))
                    | Inr entropy_bytes \<Rightarrow>
                        let hash_int = int_from_bytes (sha256 P entropy_bytes);
                            computed_checksum = take checksum_bits (zfill 256 (bin_digits hash_int))
                        in if checksum \<noteq> computed_checksum
                           then Inl (InvalidSeedException (lit ''Checksum validation failed''))
                           else Inr True))"

text \<open>The class of the exception an error value stands for, as an \<open>except\<close> clause or
  \<open>isinstance\<close> sees it.\<close>

fun exception_class :: "pyerr \<Rightarrow> string" where
  "exception_class (PyException m) = ''Exception''"
| "exception_class (InvalidSeedException m) = ''InvalidSeedException''"
| "exception_class ValueError = ''ValueError''"
| "exception_class OverflowError = ''OverflowError''"
| "exception_class IndexError = ''IndexError''"
| "exception_class AttributeError = ''AttributeError''"
| "exception_class UnicodeEncodeError = ''UnicodeEncodeError''"
| "exception_class LibraryError = ''LibraryError''"

text \<open>A \<open>Seed\<close> object is its instance dictionary: the attributes the constructor and the
  methods assign.\<close>

datatype pyval = VStr pystr | VStrList "pystr list" | VClassAttribute

type_synonym seed_obj = "string \<Rightarrow> pyval option"

datatype pyobject = SeedInstance seed_obj | OtherValue

definition Seed_init ::
  "('pt, 'x) prims_scheme \<Rightarrow> pystr list \<Rightarrow> pystr list option \<Rightarrow> pyerr + seed_obj" where
  "Seed_init P wordlist mnemonic =
     (case mnemonic of
        None \<Rightarrow> Inl (PyException (lit ''Must initialize a Seed with a mnemonic List[str]''))
      | Some m \<Rightarrow>
          if m = [] then Inl (PyException (lit ''Must initialize a Seed with a mnemonic List[str]''))
          else
            let self = (\<lambda>name. None)
                  (''_mnemonic'' := Some (VStrList m),
                   ''_passphrase'' := Some (VStr []),
                   ''xpriv'' := Some (VStr []),
                   ''xpub'' := Some (VStr []),
                   ''fingerprint'' := Some (VStr []))
            in ebind (validate_mnemonic P wordlist m) (\<lambda>ok. Inr self))"

definition Seed_set_passphrase :: "seed_obj \<Rightarrow> pystr \<Rightarrow> seed_obj" where
  "Seed_set_passphrase self passphrase = self(''_passphrase'' := Some (VStr passphrase))"

definition mnemonic_str :: "pystr list \<Rightarrow> pystr" where
  "mnemonic_str mnemonic = str_join (lit '' '') mnemonic"

text \<open>The computation of \<open>generate_seed\<close> from the mnemonic and the passphrase: the
  hexadecimal seed, then the three values the method assigns.\<close>

definition generate_seed_hexa ::
  "('pt, 'x) prims_scheme \<Rightarrow> pystr list \<Rightarrow> pystr \<Rightarrow> pyerr + string" where
  "generate_seed_hexa P mnemonic passphrase = seed_generator P (mnemonic_str mnemonic) passphrase"

text \<open>\<open>generate_seed\<close> on the object: the new instance dictionary, and the exception when
  one is raised. \<open>xpriv\<close> and \<open>xpub\<close> are assigned before \<open>fingerprint_hex\<close> runs.\<close>

definition Seed_generate_seed ::
  "('pt, 'x) prims_scheme \<Rightarrow> seed_obj \<Rightarrow> seed_obj \<times> pyerr option" where
  "Seed_generate_seed P self =
     (case (self ''_mnemonic'', self ''_passphrase'') of
        (Some (VStrList m), Some (VStr passphrase)) \<Rightarrow>
          (case generate_seed_hexa P m passphrase of
             Inl e \<Rightarrow> (self, Some e)
           | Inr hexa_seed \<Rightarrow>
               (case derivation_m_44_145_0 P hexa_seed of
                  Inl e \<Rightarrow> (self, Some e)
                | Inr (depth, father_fingerprint, child_index, account_chain_code, account_key,
                       account_public_key) \<Rightarrow>
                    let self1 = self(''xpriv'' := Some (VStr (lit
                          (xpriv_encode P depth father_fingerprint child_index
                             account_chain_code account_key))));
                        self2 = self1(''xpub'' := Some (VStr (lit
                          (xpub_encode P depth father_fingerprint child_index
                             account_chain_code account_public_key))))
                    in case fingerprint_hex P hexa_seed of
                         Inl e \<Rightarrow> (self2, Some e)
                       | Inr fp \<Rightarrow> (self2(''fingerprint'' := Some (VStr (lit fp))), None)))
      | _ \<Rightarrow> (self, Some AttributeError))"

text \<open>The names the class body of \<open>Seed\<close> defines (methods and properties). Attribute
  lookup finds these and the entries of the instance dictionary; any other name raises
  \<open>AttributeError\<close>.\<close>

definition Seed_class_attributes :: "string list" where
  "Seed_class_attributes =
     [''__init__'', ''get_wordlist'', ''_validate_mnemonic'', ''generate_seed'',
      ''mnemonic_str'', ''mnemonic_list'', ''wordlist_language_code'',
      ''mnemonic_display_str'', ''mnemonic_display_list'', ''has_passphrase'',
      ''passphrase'', ''passphrase_display'', ''set_passphrase'', ''wordlist'',
      ''get_fingerprint'', ''__eq__'']"

definition Seed_getattr :: "seed_obj \<Rightarrow> string \<Rightarrow> pyerr + pyval" where
  "Seed_getattr self name =
     (if name \<in> set Seed_class_attributes then Inr VClassAttribute
      else case self name of Some v \<Rightarrow> Inr v | None \<Rightarrow> Inl AttributeError)"

definition Seed_eq :: "seed_obj \<Rightarrow> pyobject \<Rightarrow> pyerr + bool" where
  "Seed_eq self other =
     (case other of
        SeedInstance other_seed \<Rightarrow>
          ebind (Seed_getattr self ''seed_bytes'') (\<lambda>a.
          ebind (Seed_getattr other_seed ''seed_bytes'') (\<lambda>b. Inr (a = b)))
      | OtherValue \<Rightarrow> Inr False)"

text \<open>The \<open>Seed\<close> objects a program can build with the class: made by the constructor, then
  changed by \<open>set_passphrase\<close> and \<open>generate_seed\<close>.\<close>

inductive Seed_reachable :: "('pt, 'x) prims_scheme \<Rightarrow> pystr list \<Rightarrow> seed_obj \<Rightarrow> bool"
  for P :: "('pt, 'x) prims_scheme" and wordlist :: "pystr list" where
  constructed: "Seed_init P wordlist mnemonic = Inr self \<Longrightarrow> Seed_reachable P wordlist self"
| passphrase_set:
    "Seed_reachable P wordlist self \<Longrightarrow> Seed_reachable P wordlist (Seed_set_passphrase self p)"
| seed_generated:
    "Seed_reachable P wordlist self \<Longrightarrow> Seed_reachable P wordlist (fst (Seed_generate_seed P self))"


section \<open>Test vectors\<close>

text \<open>
  Primitives given by tables of published values, for evaluating the model on concrete
  inputs: the SHA-256 digest of sixteen zero bytes (the entropy of the BIP-39 test mnemonic
  \<open>abandon ... about\<close>) and its PBKDF2 seed with the passphrase \<open>TREZOR\<close>; the hashes of the
  compressed secp256k1 generator; and the master key of BIP-32 test vector 1 with its
  children. A point is represented by its compressed encoding. Outside the tables the
  functions return zero bytes.
\<close>

definition table_lookup :: "('a \<times> bytes) list \<Rightarrow> nat \<Rightarrow> 'a \<Rightarrow> bytes" where
  "table_lookup table len x = (case map_of table x of Some y \<Rightarrow> y | None \<Rightarrow> replicate len 0)"

definition vector_generator_pubkey :: bytes where
  "vector_generator_pubkey =
     [0x02, 0x79, 0xbe, 0x66, 0x7e, 0xf9, 0xdc, 0xbb, 0xac, 0x55, 0xa0, 0x62,
      0x95, 0xce, 0x87, 0x0b, 0x07, 0x02, 0x9b, 0xfc, 0xdb, 0x2d, 0xce, 0x28,
      0xd9, 0x59, 0xf2, 0x81, 0x5b, 0x16, 0xf8, 0x17, 0x98]"

definition vector_master_key :: bytes where
  "vector_master_key = [0xe8, 0xf3, 0x2e, 0x72, 0x3d, 0xec, 0xf4, 0x05, 0x1a, 0xef, 0xac, 0x8e,
                        0x2c, 0x93, 0xc9, 0xc5, 0xb2, 0x14, 0x31, 0x38, 0x17, 0xcd, 0xb0, 0x1a,
                        0x14, 0x94, 0xb9, 0x17, 0xc8, 0x43, 0x6b, 0x35]"

definition vector_master_chain_code :: bytes where
  "vector_master_chain_code =
     [0x87, 0x3d, 0xff, 0x81, 0xc0, 0x2f, 0x52, 0x56, 0x23, 0xfd, 0x1f, 0xe5,
      0x16, 0x7e, 0xac, 0x3a, 0x55, 0xa0, 0x49, 0xde, 0x3d, 0x31, 0x4b, 0xb4,
      0x2e, 0xe2, 0x27, 0xff, 0xed, 0x37, 0xd5, 0x08]"

definition vector_master_pubkey :: bytes where
  "vector_master_pubkey =
     [0x03, 0x39, 0xa3, 0x60, 0x13, 0x30, 0x15, 0x97, 0xda, 0xef, 0x41, 0xfb,
      0xe5, 0x93, 0xa0, 0x2c, 0xc5, 0x13, 0xd0, 0xb5, 0x55, 0x27, 0xec, 0x2d,
      0xf1, 0x05, 0x0e, 0x2e, 0x8f, 0xf4, 0x9c, 0x85, 0xc2]"

text \<open>The 78 bytes of the extended public and private master keys of BIP-32 test vector 1,
  before their checksums.\<close>

definition vector_xpub_payload :: bytes where
  "vector_xpub_payload =
     [0x04, 0x88, 0xb2, 0x1e] @ [0] @ [0x00, 0x00, 0x00, 0x00] @ [0x00, 0x00, 0x00, 0x00] @ vector_master_chain_code
       @ vector_master_pubkey"

definition vector_xpriv_payload :: bytes where
  "vector_xpriv_payload =
     [0x04, 0x88, 0xad, 0xe4] @ [0] @ [0x00, 0x00, 0x00, 0x00] @ [0x00, 0x00, 0x00, 0x00] @ vector_master_chain_code
       @ [0] @ vector_master_key"

definition vector_xpub :: string where
  "vector_xpub =
     ''xpub661MyMwAqRbcFtXgS5sYJABqqG9YLmC4Q1Rdap9gSE8NqtwybGhePY2gZ29ESFjqJoCu1Rupje8Y''
       @ ''tGqsefD265TMg7usUDFdp6W1EGMcet8''"

text \<open>The same string with its last character changed from \<open>8\<close> to \<open>9\<close>.\<close>

definition vector_xpub_damaged :: string where
  "vector_xpub_damaged =
     ''xpub661MyMwAqRbcFtXgS5sYJABqqG9YLmC4Q1Rdap9gSE8NqtwybGhePY2gZ29ESFjqJoCu1Rupje8Y''
       @ ''tGqsefD265TMg7usUDFdp6W1EGMcet9''"

definition vector_xpriv :: string where
  "vector_xpriv =
     ''xprv9s21ZrQH143K3QTDL4LXw2F7HEK3wJUD2nW2nRk4stbPy6cq3jPPqjiChkVvvNKmPGJxWUtg6LnF''
       @ ''5kejMRNNU3TGtRBeJgk33yuGBxrMPHi''"

definition vector_sha256 :: "bytes \<Rightarrow> bytes" where
  "vector_sha256 =
     table_lookup
       [(replicate 16 0,
         [0x37, 0x47, 0x08, 0xff, 0xf7, 0x71, 0x9d, 0xd5, 0x97, 0x9e, 0xc8, 0x75,
          0xd5, 0x6c, 0xd2, 0x28, 0x6f, 0x6d, 0x3c, 0xf7, 0xec, 0x31, 0x7a, 0x3b,
          0x25, 0x63, 0x2a, 0xab, 0x28, 0xec, 0x37, 0xbb]),
        (vector_generator_pubkey,
         [0x0f, 0x71, 0x5b, 0xaf, 0x5d, 0x4c, 0x2e, 0xd3, 0x29, 0x78, 0x5c, 0xef,
          0x29, 0xe5, 0x62, 0xf7, 0x34, 0x88, 0xc8, 0xa2, 0xbb, 0x9d, 0xbc, 0x57,
          0x00, 0xb3, 0x61, 0xd5, 0x4b, 0x9b, 0x05, 0x54]),
        ([0x00, 0x75, 0x1e, 0x76, 0xe8, 0x19, 0x91, 0x96, 0xd4, 0x54, 0x94, 0x1c,
          0x45, 0xd1, 0xb3, 0xa3, 0x23, 0xf1, 0x43, 0x3b, 0xd6],
         [0xc5, 0xa2, 0xed, 0x70, 0xd2, 0xc0, 0x35, 0x10, 0x8c, 0x24, 0x15, 0x79,
          0x21, 0x62, 0xa6, 0xda, 0xaf, 0x21, 0xe6, 0xdc, 0x01, 0x5a, 0xce, 0x0f,
          0x9a, 0x45, 0x8d, 0xd3, 0xf0, 0x1d, 0xa5, 0x98]),
        ([0xc5, 0xa2, 0xed, 0x70, 0xd2, 0xc0, 0x35, 0x10, 0x8c, 0x24, 0x15, 0x79,
          0x21, 0x62, 0xa6, 0xda, 0xaf, 0x21, 0xe6, 0xdc, 0x01, 0x5a, 0xce, 0x0f,
          0x9a, 0x45, 0x8d, 0xd3, 0xf0, 0x1d, 0xa5, 0x98],
         [0x51, 0x0d, 0x16, 0x34, 0xd9, 0x43, 0x10, 0x9b, 0x69, 0xda, 0x52, 0x7e,
          0xf5, 0x94, 0x81, 0x06, 0xf2, 0x2b, 0x65, 0x5f, 0xb5, 0x19, 0x3b, 0x4e,
          0x9e, 0xf7, 0xe4, 0xdc, 0xd3, 0x42, 0xd2, 0x45]),
        (vector_xpub_payload,
         [0xa5, 0xf3, 0xf5, 0xa0, 0x15, 0x84, 0x6a, 0xcd, 0x0d, 0x15, 0x2f, 0x95,
          0x71, 0x76, 0xbd, 0xa6, 0x4d, 0x39, 0xf1, 0x80, 0x47, 0x09, 0xd2, 0x59,
          0x55, 0xde, 0x84, 0x4a, 0xfe, 0xd5, 0x58, 0x95]),
        ([0xa5, 0xf3, 0xf5, 0xa0, 0x15, 0x84, 0x6a, 0xcd, 0x0d, 0x15, 0x2f, 0x95,
          0x71, 0x76, 0xbd, 0xa6, 0x4d, 0x39, 0xf1, 0x80, 0x47, 0x09, 0xd2, 0x59,
          0x55, 0xde, 0x84, 0x4a, 0xfe, 0xd5, 0x58, 0x95],
         [0xab, 0x47, 0x3b, 0x21, 0x80, 0x0c, 0xe1, 0xf6, 0x33, 0xa4, 0x36, 0x4a,
          0x6c, 0x3b, 0x94, 0x28, 0xdd, 0xf9, 0x6b, 0x73, 0xd1, 0xd3, 0x49, 0x99,
          0x1c, 0x2b, 0x71, 0xa2, 0x8e, 0x89, 0x1c, 0x1e]),
        (vector_xpriv_payload,
         [0xe3, 0x34, 0x05, 0x54, 0x41, 0xb6, 0x51, 0xad, 0xde, 0x9c, 0xc6, 0x33,
          0x46, 0x38, 0x36, 0x86, 0x3c, 0xfe, 0x47, 0xe6, 0x35, 0xbd, 0x93, 0x86,
          0x5a, 0x79, 0x95, 0x5b, 0x83, 0x3b, 0x1d, 0xa4]),
        ([0xe3, 0x34, 0x05, 0x54, 0x41, 0xb6, 0x51, 0xad, 0xde, 0x9c, 0xc6, 0x33,
          0x46, 0x38, 0x36, 0x86, 0x3c, 0xfe, 0x47, 0xe6, 0x35, 0xbd, 0x93, 0x86,
          0x5a, 0x79, 0x95, 0x5b, 0x83, 0x3b, 0x1d, 0xa4],
         [0xe7, 0x7e, 0x9d, 0x71, 0x03, 0x17, 0xec, 0xac, 0x15, 0x6a, 0x62, 0xca,
          0xff, 0xca, 0xcb, 0x93, 0x16, 0x79, 0x29, 0x4f, 0x8b, 0x2b, 0x56, 0xf8,
          0xa5, 0xd1, 0x70, 0xb3, 0xeb, 0x55, 0x74, 0x7c])]
       32"

definition vector_ripemd160 :: "bytes \<Rightarrow> bytes" where
  "vector_ripemd160 =
     table_lookup
       [([0x0f, 0x71, 0x5b, 0xaf, 0x5d, 0x4c, 0x2e, 0xd3, 0x29, 0x78, 0x5c, 0xef,
          0x29, 0xe5, 0x62, 0xf7, 0x34, 0x88, 0xc8, 0xa2, 0xbb, 0x9d, 0xbc, 0x57,
          0x00, 0xb3, 0x61, 0xd5, 0x4b, 0x9b, 0x05, 0x54],
         [0x75, 0x1e, 0x76, 0xe8, 0x19, 0x91, 0x96, 0xd4, 0x54, 0x94, 0x1c, 0x45,
          0xd1, 0xb3, 0xa3, 0x23, 0xf1, 0x43, 0x3b, 0xd6])]
       20"

definition vector_hmac_sha512 :: "bytes \<Rightarrow> bytes \<Rightarrow> bytes" where
  "vector_hmac_sha512 key d =
     table_lookup
       [((vector_master_chain_code, [0] @ vector_master_key @ [0x80, 0x00, 0x00, 0x00]),
         [0x04, 0xbf, 0xb2, 0xdd, 0x60, 0xfa, 0x89, 0x21, 0xc2, 0xa4, 0x08, 0x5e,
          0xc1, 0x55, 0x07, 0xa9, 0x21, 0xf4, 0x9c, 0xdc, 0x83, 0x9f, 0x27, 0xf0,
          0xf2, 0x80, 0xe9, 0xc1, 0x49, 0x5d, 0x44, 0xb5, 0x47, 0xfd, 0xac, 0xbd,
          0x0f, 0x10, 0x97, 0x04, 0x3b, 0x78, 0xc6, 0x3c, 0x20, 0xc3, 0x4e, 0xf4,
          0xed, 0x9a, 0x11, 0x1d, 0x98, 0x00, 0x47, 0xad, 0x16, 0x28, 0x2c, 0x7a,
          0xe6, 0x23, 0x61, 0x41]),
        ((vector_master_chain_code, vector_master_pubkey @ [0x80, 0x00, 0x00, 0x00]),
         [0x47, 0xc1, 0xfc, 0xeb, 0xe8, 0x57, 0x57, 0xe4, 0xb7, 0x83, 0xe1, 0xa6,
          0xf7, 0xfd, 0x64, 0xc1, 0x4b, 0xe2, 0xe7, 0xc0, 0x84, 0x37, 0x2f, 0xd1,
          0x37, 0x28, 0x18, 0xee, 0x86, 0xa0, 0x23, 0x5b, 0x89, 0x53, 0xb4, 0xc4,
          0x12, 0x21, 0x4f, 0xbe, 0xd4, 0x05, 0x9e, 0xbf, 0xbe, 0xf7, 0x0e, 0x83,
          0xf4, 0x5e, 0x84, 0x5c, 0xf5, 0xf0, 0x50, 0xc2, 0x79, 0x65, 0xa1, 0x2b,
          0xbe, 0xe5, 0xaf, 0xfb]),
        ((vector_master_chain_code, vector_master_pubkey @ [0x00, 0x00, 0x00, 0x01]),
         [0x65, 0x05, 0xfd, 0x0f, 0x94, 0x85, 0x87, 0xff, 0x19, 0xec, 0xb8, 0xd9,
          0xb3, 0x89, 0x21, 0x25, 0x89, 0x7e, 0xb4, 0x45, 0xe2, 0x8e, 0x0b, 0xa2,
          0x30, 0x86, 0xa8, 0x88, 0xda, 0xeb, 0x00, 0xaa, 0x8d, 0xd9, 0x64, 0x14,
          0xff, 0x4d, 0x5b, 0x47, 0x50, 0xbe, 0x3a, 0xf7, 0xfe, 0xcc, 0xe2, 0x07,
          0x17, 0x3f, 0x86, 0xd6, 0xb5, 0xf5, 0x8f, 0x93, 0x66, 0x29, 0x71, 0x80,
          0xde, 0x8e, 0x10, 0x9b])]
       64 (key, d)"

definition vector_pbkdf2_hmac :: "string \<Rightarrow> bytes \<Rightarrow> bytes \<Rightarrow> nat \<Rightarrow> nat \<Rightarrow> bytes" where
  "vector_pbkdf2_hmac algorithm password salt iterations dklen =
     (if algorithm = ''sha512'' \<and> iterations = 2048 \<and> dklen = 64 then
        table_lookup
          [((ascii_bytes (''abandon abandon abandon abandon abandon abandon abandon abandon ''
                          @ ''abandon abandon abandon about''),
             ascii_bytes ''mnemonicTREZOR''),
            [0xc5, 0x52, 0x57, 0xc3, 0x60, 0xc0, 0x7c, 0x72, 0x02, 0x9a, 0xeb, 0xc1,
             0xb5, 0x3c, 0x05, 0xed, 0x03, 0x62, 0xad, 0xa3, 0x8e, 0xad, 0x3e, 0x3e,
             0x9e, 0xfa, 0x37, 0x08, 0xe5, 0x34, 0x95, 0x53, 0x1f, 0x09, 0xa6, 0x98,
             0x75, 0x99, 0xd1, 0x82, 0x64, 0xc1, 0xe1, 0xc9, 0x2f, 0x2c, 0xf1, 0x41,
             0x63, 0x0c, 0x7a, 0x3c, 0x4a, 0xb7, 0xc8, 0x1b, 0x2f, 0x00, 0x16, 0x98,
             0xe7, 0x46, 0x3b, 0x04])]
          64 (password, salt)
      else replicate dklen 0)"

definition vector_generator_mul_add :: "int \<Rightarrow> bytes \<Rightarrow> bytes" where
  "vector_generator_mul_add k point =
     table_lookup
       [((0x47c1fcebe85757e4b783e1a6f7fd64c14be2e7c084372fd1372818ee86a0235b, vector_master_pubkey),
         [0x03, 0x34, 0x77, 0x31, 0x41, 0x46, 0xc3, 0x99, 0x06, 0x10, 0x11, 0x35,
          0x3d, 0x1d, 0x51, 0x5f, 0xa0, 0x3e, 0xe2, 0xb0, 0x7e, 0x34, 0x8d, 0x75,
          0x2b, 0x84, 0x67, 0xdf, 0x55, 0xf7, 0x82, 0x43, 0xda]),
        ((0x6505fd0f948587ff19ecb8d9b3892125897eb445e28e0ba23086a888daeb00aa, vector_master_pubkey),
         [0x03, 0x7c, 0x20, 0x98, 0xfd, 0x22, 0x35, 0x66, 0x07, 0x34, 0x66, 0x7f,
          0xf8, 0x82, 0x1d, 0xbb, 0xe0, 0xe6, 0x59, 0x2d, 0x43, 0xcf, 0xd8, 0x6b,
          0x5d, 0xde, 0x9e, 0xa7, 0xc8, 0x39, 0xb9, 0x3a, 0x50])]
       33 (k, point)"

definition vector_prims :: "bytes prims" where
  "vector_prims =
     \<lparr> sha256 = vector_sha256,
       ripemd160 = vector_ripemd160,
       hmac_sha512 = vector_hmac_sha512,
       pbkdf2_hmac = vector_pbkdf2_hmac,
       pubkey_compressed = (\<lambda>k. Inl LibraryError),
       point_from_string = (\<lambda>b. Inr b),
       generator_mul_add = vector_generator_mul_add,
       point_compressed = (\<lambda>p. Inr p) \<rparr>"

text \<open>The first four words of the BIP-39 English word list.\<close>

definition vector_wordlist :: "pystr list" where
  "vector_wordlist = [lit ''abandon'', lit ''ability'', lit ''able'', lit ''about'']"

definition vector_mnemonic :: "pystr list" where
  "vector_mnemonic = replicate 11 (lit ''abandon'') @ [lit ''about'']"

section \<open>Positional values\<close>

text \<open>The number a list of digits of \<open>w\<close> bits each writes, most significant digit first,
  continuing from \<open>a\<close>; digit lists whose entries fit in \<open>w\<close> bits; and the number of zero
  bits that fill a bit string of length \<open>n\<close> up to a multiple of \<open>t\<close>.\<close>

definition digits_value :: "nat \<Rightarrow> int \<Rightarrow> int list \<Rightarrow> int" where
  "digits_value w a ds = foldl (\<lambda>a d. a * 2 ^ w + d) a ds"

definition in_range :: "nat \<Rightarrow> int list \<Rightarrow> bool" where
  "in_range w ds = list_all (\<lambda>d. 0 \<le> d \<and> d < 2 ^ w) ds"

definition pad_bits :: "nat \<Rightarrow> nat \<Rightarrow> nat" where
  "pad_bits t n = (t - n mod t) mod t"


section \<open>The CashAddr payload and checksum, as the specification words them\<close>

text \<open>The input of the checksum polynomial: the prefix characters reduced to their low five
  bits, a zero, the payload groups and eight zero groups. The checksum: the low 40 bits of
  the polymod value, split into eight groups of five bits, most significant first. The text
  of a list of groups in the 32-symbol alphabet.\<close>

definition polymod_input :: "int list \<Rightarrow> int list" where
  "polymod_input payload5 =
     map (\<lambda>c. of_char c mod 32) ''bitcoincash'' @ [0] @ payload5 @ replicate 8 0"

definition checksum5 :: "int list \<Rightarrow> int list" where
  "checksum5 payload5 =
     map (\<lambda>i. polymod (polymod_input payload5) mod 2 ^ 40 div 32 ^ (7 - i) mod 32) [0..<8]"

definition base32_text :: "int list \<Rightarrow> string" where
  "base32_text ds = map (\<lambda>d. CHARSET ! nat d) ds"

text \<open>The seed of the BIP-39 test mnemonic with the passphrase \<open>TREZOR\<close>.\<close>

definition vector_seed :: bytes where
  "vector_seed =
     [0xc5, 0x52, 0x57, 0xc3, 0x60, 0xc0, 0x7c, 0x72, 0x02, 0x9a, 0xeb, 0xc1,
      0xb5, 0x3c, 0x05, 0xed, 0x03, 0x62, 0xad, 0xa3, 0x8e, 0xad, 0x3e, 0x3e,
      0x9e, 0xfa, 0x37, 0x08, 0xe5, 0x34, 0x95, 0x53, 0x1f, 0x09, 0xa6, 0x98,
      0x75, 0x99, 0xd1, 0x82, 0x64, 0xc1, 0xe1, 0xc9, 0x2f, 0x2c, 0xf1, 0x41,
      0x63, 0x0c, 0x7a, 0x3c, 0x4a, 0xb7, 0xc8, 0x1b, 0x2f, 0x00, 0x16, 0x98,
      0xe7, 0x46, 0x3b, 0x04]"

section \<open>The parts of mnemonic validation\<close>

text \<open>The message for a word that is not in the list; the bit string of a mnemonic whose
  words are all in the list; the supported lengths; and, for a bit string, its trailing
  checksum bits (one per 33 bits), the entropy bytes before them, and the checksum
  recomputed from the SHA-256 digest of the entropy bytes.\<close>

definition word_not_in_wordlist_message :: "pystr \<Rightarrow> pystr" where
  "word_not_in_wordlist_message word = lit ''Word '' @ [39] @ word @ [39] @ lit '' not in wordlist''"

definition mnemonic_bits :: "pystr list \<Rightarrow> pystr list \<Rightarrow> string" where
  "mnemonic_bits wordlist mnemonic =
     (case mnemonic_word_bits wordlist mnemonic of Inl e \<Rightarrow> [] | Inr bs \<Rightarrow> concat bs)"

definition supported_bit_lengths :: "nat list" where
  "supported_bit_lengths = [132, 165, 198, 231, 264]"

definition trailing_checksum :: "string \<Rightarrow> string" where
  "trailing_checksum bits = drop (length bits - length bits div 33) bits"

definition entropy_bytes :: "string \<Rightarrow> bytes" where
  "entropy_bytes bits =
     be_bytes ((length bits - length bits div 33) div 8)
       (int_of_bin (take (length bits - length bits div 33) bits))"

definition recomputed_checksum :: "('pt, 'x) prims_scheme \<Rightarrow> string \<Rightarrow> string" where
  "recomputed_checksum P bits =
     take (length bits div 33)
       (zfill 256 (bin_digits (int_from_bytes (sha256 P (entropy_bytes bits)))))"

section \<open>Reading an address back\<close>

text \<open>Reading an address back. The repository encodes addresses and has no decoder for
  them; these two follow the formats. A legacy address is the Base58 text of the version
  byte, the hash and four checksum bytes: its payload is the first 21 bytes. A CashAddr
  address is the prefix, a colon and the base-32 text of the 5-bit payload followed by eight
  checksum groups: its payload is regrouped from 5 to 8 bits without padding.\<close>

definition legacy_address_payload :: "string \<Rightarrow> pyerr + bytes" where
  "legacy_address_payload addr = ebind (b58decode addr) (\<lambda>b. Inr (take 21 b))"

fun decode_base32 :: "string \<Rightarrow> int list option" where
  "decode_base32 [] = Some []"
| "decode_base32 (c # cs) =
     (case list_index CHARSET c of
        None \<Rightarrow> None
      | Some d \<Rightarrow> (case decode_base32 cs of None \<Rightarrow> None | Some ds \<Rightarrow> Some (int d # ds)))"

definition cashaddr_address_payload :: "string \<Rightarrow> int list option" where
  "cashaddr_address_payload addr =
     (if take 12 addr = ''bitcoincash:'' then
        (case decode_base32 (drop 12 addr) of
           None \<Rightarrow> None
         | Some ds \<Rightarrow> convert_bits (take (length ds - 8) ds) 5 8 False)
      else None)"

section \<open>Regrouping bits: what \<open>convert_bits\<close> computes\<close>
lemma digits_value_Nil [simp]: "digits_value w a [] = a"
  by (simp add: digits_value_def)

lemma digits_value_Cons [simp]: "digits_value w a (d # ds) = digits_value w (a * 2 ^ w + d) ds"
  by (simp add: digits_value_def)

lemma digits_value_snoc [simp]: "digits_value w a (ds @ [d]) = digits_value w a ds * 2 ^ w + d"
  by (simp add: digits_value_def)

lemma and_exp_mod: "(x::int) AND (2 ^ t - 1) = x mod 2 ^ t"
  by (simp add: mask_eq_exp_minus_1 [symmetric] take_bit_eq_mask [symmetric] take_bit_eq_mod)

lemma and_mask_mod: "(x::int) AND (push_bit t 1 - 1) = x mod 2 ^ t"
  by (simp add: and_exp_mod)

lemma div_pow_split: "t \<le> b \<Longrightarrow> (a::int) div 2 ^ (b - t) div 2 ^ t = a div 2 ^ b"
proof -
  assume "t \<le> b"
  then have "(2::int) ^ b = 2 ^ (b - t) * 2 ^ t"
    by (simp add: power_add [symmetric])
  then show ?thesis
    by (simp add: zdiv_zmult2_eq)
qed

lemma convert_bits_while_inv:
  assumes "0 < t" "digits_value t 0 ret = acc div 2 ^ bits" "in_range t ret"
  shows "\<exists>ret'. convert_bits_while t acc bits ret = Some (bits mod t, ret')
           \<and> digits_value t 0 ret' = acc div 2 ^ (bits mod t)
           \<and> length ret' = length ret + bits div t \<and> in_range t ret'"
  using assms
proof (induction t acc bits ret rule: convert_bits_while.induct)
  case (1 t acc bits ret)
  show ?case
  proof (cases "t \<le> bits")
    case False
    then show ?thesis using 1 by (simp add: convert_bits_while.simps)
  next
    case True
    let ?d = "drop_bit (bits - t) acc AND (push_bit t 1 - 1)"
    have d: "?d = acc div 2 ^ (bits - t) mod 2 ^ t"
      by (simp add: and_exp_mod drop_bit_eq_div)
    have v: "digits_value t 0 (ret @ [?d]) = acc div 2 ^ (bits - t)"
    proof -
      have "digits_value t 0 ret = acc div 2 ^ (bits - t) div 2 ^ t"
        using "1.prems"(2) True by (simp add: div_pow_split)
      then have "digits_value t 0 (ret @ [?d]) =
          acc div 2 ^ (bits - t) div 2 ^ t * 2 ^ t + acc div 2 ^ (bits - t) mod 2 ^ t"
        by (simp only: digits_value_snoc d)
      also have "\<dots> = acc div 2 ^ (bits - t)"
        by (rule div_mult_mod_eq)
      finally show ?thesis .
    qed
    have r: "in_range t (ret @ [?d])"
      using "1.prems"(3) by (simp add: in_range_def d)
    from "1.IH" [OF True _ "1.prems"(1) v r] "1.prems"(1)
    obtain ret' where "convert_bits_while t acc (bits - t) (ret @ [?d]) = Some ((bits - t) mod t, ret')"
      "digits_value t 0 ret' = acc div 2 ^ ((bits - t) mod t)"
      "length ret' = length (ret @ [?d]) + (bits - t) div t" "in_range t ret'"
      by auto
    moreover have "(bits - t) mod t = bits mod t" using True by (simp add: le_mod_geq)
    moreover have "Suc ((bits - t) div t) = bits div t" using True "1.prems"(1) by (simp add: le_div_geq)
    ultimately show ?thesis using True "1.prems"(1)
      by (subst convert_bits_while.simps) auto
  qed
qed


lemma shift_or_add:
  assumes "0 \<le> v" "v < 2 ^ f"
  shows "push_bit f (a::int) OR v = a * 2 ^ f + v"
proof -
  have "take_bit f v = v"
    using assms by (simp add: take_bit_int_eq_self)
  then have "push_bit f a OR v = concat_bit f v a"
    by (simp add: concat_bit_def or.commute)
  also have "\<dots> = v + push_bit f a"
    using \<open>take_bit f v = v\<close> by (simp add: concat_bit_eq)
  finally show ?thesis
    by (simp add: push_bit_eq_mult)
qed

lemma shift_add_div:
  assumes "0 \<le> v" "v < 2 ^ f"
  shows "((a::int) * 2 ^ f + v) div 2 ^ (bits + f) = a div 2 ^ bits"
proof -
  have "(a * 2 ^ f + v) div 2 ^ f = a"
    using assms by (simp add: div_pos_pos_trivial)
  moreover have "(2::int) ^ (bits + f) = 2 ^ f * 2 ^ bits"
    by (simp add: power_add)
  then have "(a * 2 ^ f + v) div 2 ^ (bits + f) = (a * 2 ^ f + v) div 2 ^ f div 2 ^ bits"
    by (simp only: zdiv_zmult2_eq zero_le_power zero_le_numeral)
  ultimately show ?thesis by simp
qed

lemma div_mod_add_split: "0 < (t::nat) \<Longrightarrow> a div t + (a mod t + b) div t = (a + b) div t"
proof -
  assume t: "0 < t"
  have "a + b = (a mod t + b) + a div t * t"
    by simp
  then have "(a + b) div t = ((a mod t + b) + a div t * t) div t"
    by (rule arg_cong)
  also have "\<dots> = a div t + (a mod t + b) div t"
    using t by (simp only: div_mult_self1 neq0_conv)
  finally show ?thesis by simp
qed

lemma convert_bits_for_inv:
  assumes "bits < t" "in_range f data" "digits_value t 0 ret = acc div 2 ^ bits" "in_range t ret"
  shows "\<exists>ret'. convert_bits_for f t data acc bits ret
             = Some (digits_value f acc data, (bits + f * length data) mod t, ret')
           \<and> digits_value t 0 ret' = digits_value f acc data div 2 ^ ((bits + f * length data) mod t)
           \<and> length ret' = length ret + (bits + f * length data) div t \<and> in_range t ret'"
  using assms
proof (induction data arbitrary: acc bits ret)
  case Nil
  then show ?case by simp
next
  case (Cons v data)
  have v: "0 \<le> v" "v < 2 ^ f" and data: "in_range f data"
    using Cons.prems(2) by (simp_all add: in_range_def)
  let ?acc = "push_bit f acc OR v"
  have acc: "?acc = acc * 2 ^ f + v"
    using v by (rule shift_or_add)
  have "digits_value t 0 ret = ?acc div 2 ^ (bits + f)"
    using Cons.prems(3) v by (simp only: acc shift_add_div)
  note a0 = this
  have t: "0 < t" and b1: "(bits + f) mod t < t"
    using Cons.prems(1) by simp_all
  from convert_bits_while_inv [OF t a0 Cons.prems(4)]
  obtain ret1 where w: "convert_bits_while t ?acc (bits + f) ret = Some ((bits + f) mod t, ret1)"
    and w1: "digits_value t 0 ret1 = ?acc div 2 ^ ((bits + f) mod t)"
    and w2: "length ret1 = length ret + (bits + f) div t" and w3: "in_range t ret1"
    by blast
  from Cons.IH [OF b1 data w1 w3]
  obtain ret' where r: "convert_bits_for f t data ?acc ((bits + f) mod t) ret1
             = Some (digits_value f ?acc data, ((bits + f) mod t + f * length data) mod t, ret')"
    and r1: "digits_value t 0 ret' = digits_value f ?acc data div 2 ^ (((bits + f) mod t + f * length data) mod t)"
    and r2: "length ret' = length ret1 + ((bits + f) mod t + f * length data) div t"
    and r3: "in_range t ret'"
    by blast
  have m: "((bits + f) mod t + f * length data) mod t = (bits + f * length (v # data)) mod t"
    by (simp add: mod_add_left_eq add.assoc)
  have l: "(bits + f) div t + ((bits + f) mod t + f * length data) div t = (bits + f * length (v # data)) div t"
    using t by (simp add: div_mod_add_split add.assoc)
  have dv: "digits_value f ?acc data = digits_value f acc (v # data)"
    by (simp only: acc digits_value_Cons)
  show ?case
    using w r r1 r2 r3 w2 l unfolding m dv
    by (simp del: digits_value_Cons)
qed


lemma digits_value_unique:
  assumes "in_range w xs" "in_range w ys" "length xs = length ys"
    "digits_value w a xs = digits_value w a ys"
  shows "xs = ys"
  using assms
proof (induction xs arbitrary: ys rule: rev_induct)
  case Nil
  then show ?case by simp
next
  case (snoc x xs)
  from snoc.prems(3) obtain y ys' where ys: "ys = ys' @ [y]"
    by (cases ys rule: rev_cases) auto
  have x: "0 \<le> x" "x < 2 ^ w" and xs: "in_range w xs"
    using snoc.prems(1) by (simp_all add: in_range_def)
  have y: "0 \<le> y" "y < 2 ^ w" and ys': "in_range w ys'"
    using snoc.prems(2) by (simp_all add: in_range_def ys)
  have e: "digits_value w a xs * 2 ^ w + x = digits_value w a ys' * 2 ^ w + y"
    using snoc.prems(4) by (simp add: ys)
  have "(digits_value w a xs * 2 ^ w + x) div 2 ^ w = digits_value w a xs"
    using x by (simp add: div_pos_pos_trivial)
  moreover have "(digits_value w a ys' * 2 ^ w + y) div 2 ^ w = digits_value w a ys'"
    using y by (simp add: div_pos_pos_trivial)
  ultimately have v: "digits_value w a xs = digits_value w a ys'"
    using e by simp
  with e have "x = y" by simp
  moreover have "xs = ys'"
    using snoc.IH [OF xs ys' _ v] snoc.prems(3) by (simp add: ys)
  ultimately show ?case by (simp add: ys)
qed

lemma convert_bits_nopad:
  assumes "0 < t" "in_range f data"
  shows "\<exists>ys. convert_bits data f t False = Some ys \<and> in_range t ys
           \<and> length ys = f * length data div t
           \<and> digits_value t 0 ys = digits_value f 0 data div 2 ^ (f * length data mod t)"
proof -
  have "digits_value t 0 [] = 0 div 2 ^ 0" "in_range t []"
    by (simp_all add: in_range_def)
  from convert_bits_for_inv [OF assms(1) assms(2) this]
  show ?thesis
    by (auto simp add: convert_bits_def)
qed

lemma pad_digit:
  assumes "r < t"
  shows "(a::int) div 2 ^ r * 2 ^ t + a * 2 ^ (t - r) mod 2 ^ t = a * 2 ^ (t - r)"
proof -
  have p: "(2::int) ^ t = 2 ^ r * 2 ^ (t - r)"
    using assms by (simp add: power_add [symmetric])
  have "a * 2 ^ (t - r) mod (2 ^ r * 2 ^ (t - r)) = (a mod 2 ^ r) * 2 ^ (t - r)"
    by (simp only: mult_mod_left)
  then have "a div 2 ^ r * 2 ^ t + a * 2 ^ (t - r) mod 2 ^ t
      = a div 2 ^ r * (2 ^ r * 2 ^ (t - r)) + (a mod 2 ^ r) * 2 ^ (t - r)"
    by (simp only: p)
  also have "\<dots> = (a div 2 ^ r * 2 ^ r + a mod 2 ^ r) * 2 ^ (t - r)"
    by (simp only: distrib_right mult.assoc)
  also have "\<dots> = a * 2 ^ (t - r)"
    by (simp only: div_mult_mod_eq)
  finally show ?thesis .
qed

lemma convert_bits_pad:
  assumes "0 < t" "in_range f data"
  shows "\<exists>ys. convert_bits data f t True = Some ys \<and> in_range t ys
           \<and> length ys * t = f * length data + pad_bits t (f * length data)
           \<and> digits_value t 0 ys = digits_value f 0 data * 2 ^ pad_bits t (f * length data)"
proof -
  let ?r = "f * length data mod t"
  let ?N = "digits_value f 0 data"
  have "digits_value t 0 [] = 0 div 2 ^ 0" "in_range t []"
    by (simp_all add: in_range_def)
  from convert_bits_for_inv [OF assms(1) assms(2) this]
  obtain ret where c: "convert_bits_for f t data 0 0 [] = Some (?N, ?r, ret)"
    and v: "digits_value t 0 ret = ?N div 2 ^ ?r"
    and l: "length ret = f * length data div t" and r: "in_range t ret"
    by auto
  show ?thesis
  proof (cases "?r = 0")
    case True
    have "f * length data div t * t = f * length data"
      using div_mult_mod_eq [of "f * length data" t] True by simp
    then show ?thesis
      using c v l r assms(1) True by (simp add: convert_bits_def pad_bits_def)
  next
    case False
    have rt: "?r < t" using assms(1) by simp
    let ?d = "push_bit (t - ?r) ?N AND (push_bit t 1 - 1)"
    have d: "?d = ?N * 2 ^ (t - ?r) mod 2 ^ t"
      by (simp add: and_exp_mod push_bit_eq_mult)
    have pb: "pad_bits t (f * length data) = t - ?r"
      using False rt by (simp add: pad_bits_def)
    have "convert_bits data f t True = Some (ret @ [?d])"
      using c False by (simp add: convert_bits_def)
    moreover have "in_range t (ret @ [?d])"
      using r by (simp add: in_range_def d)
    moreover have "length (ret @ [?d]) * t = f * length data + (t - ?r)"
    proof -
      have "f * length data div t * t + ?r = f * length data" by simp
      moreover have "length (ret @ [?d]) * t = f * length data div t * t + t"
        by (simp add: l)
      ultimately show ?thesis using rt by linarith
    qed
    moreover have "digits_value t 0 (ret @ [?d]) = ?N * 2 ^ (t - ?r)"
      using pad_digit [OF rt, of ?N] by (simp only: digits_value_snoc v d)
    ultimately show ?thesis
      unfolding pb by blast
  qed
qed

lemma pad_bits_less: "0 < t \<Longrightarrow> pad_bits t n < t"
  by (simp add: pad_bits_def)

lemma convert_bits_roundtrip:
  assumes "0 < t" "t \<le> f" "in_range f data"
  shows "\<exists>ys. convert_bits data f t True = Some ys \<and> in_range t ys
           \<and> convert_bits ys t f False = Some data"
proof -
  let ?p = "pad_bits t (f * length data)"
  from convert_bits_pad [OF assms(1) assms(3)]
  obtain ys where e: "convert_bits data f t True = Some ys" and r: "in_range t ys"
    and l: "length ys * t = f * length data + ?p"
    and v: "digits_value t 0 ys = digits_value f 0 data * 2 ^ ?p"
    by blast
  have f: "0 < f" and p: "?p < f"
    using assms(1,2) pad_bits_less [OF assms(1), of "f * length data"] by simp_all
  from convert_bits_nopad [OF f r]
  obtain zs where d: "convert_bits ys t f False = Some zs" and rz: "in_range f zs"
    and lz: "length zs = t * length ys div f"
    and vz: "digits_value f 0 zs = digits_value t 0 ys div 2 ^ (t * length ys mod f)"
    by blast
  have tl: "t * length ys = ?p + length data * f"
    using l by (simp add: mult.commute)
  have "length zs = length data"
    using p f by (simp add: lz tl)
  moreover have "t * length ys mod f = ?p"
    using p by (simp add: tl)
  then have "digits_value f 0 zs = digits_value f 0 data"
    by (simp add: vz v)
  ultimately have "zs = data"
    using digits_value_unique [OF rz assms(3)] by simp
  with e r d show ?thesis by blast
qed

section \<open>Equality of \<open>Seed\<close> objects\<close>

lemma Seed_init_seed_bytes:
  assumes "Seed_init P wordlist mnemonic = Inr self"
  shows "self ''seed_bytes'' = None"
  using assms
  by (auto simp add: Seed_init_def ebind_def Let_def split: option.splits if_splits sum.splits)

lemma Seed_generate_seed_seed_bytes:
  assumes "self ''seed_bytes'' = None"
  shows "fst (Seed_generate_seed P self) ''seed_bytes'' = None"
  using assms
  by (auto simp add: Seed_generate_seed_def Let_def split: option.splits pyval.splits sum.splits prod.splits)

lemma Seed_reachable_seed_bytes:
  assumes "Seed_reachable P wordlist self"
  shows "self ''seed_bytes'' = None"
  using assms
proof (induction rule: Seed_reachable.induct)
  case (constructed mnemonic self)
  then show ?case by (rule Seed_init_seed_bytes)
next
  case (passphrase_set self p)
  then show ?case by (simp add: Seed_set_passphrase_def)
next
  case (seed_generated self)
  from seed_generated.IH show ?case by (rule Seed_generate_seed_seed_bytes)
qed

text \<open>
  Claim C10. For a \<open>Seed\<close> object \<open>a\<close> built by the constructor and the methods of the class,
  \<open>a == b\<close> raises \<open>AttributeError\<close> for every \<open>Seed\<close> object \<open>b\<close>, because \<open>seed_bytes\<close> is
  neither in the instance dictionary nor defined by the class; comparing \<open>a\<close> with a value
  that is not a \<open>Seed\<close> returns \<open>False\<close>.
\<close>

theorem Seed_eq_raises_AttributeError:
  assumes "Seed_reachable P wordlist a"
  shows "Seed_eq a (SeedInstance b) = Inl AttributeError \<and> Seed_eq a OtherValue = Inr False"
proof -
  have "a ''seed_bytes'' = None"
    using assms by (rule Seed_reachable_seed_bytes)
  then have "Seed_getattr a ''seed_bytes'' = Inl AttributeError"
    by (simp add: Seed_getattr_def Seed_class_attributes_def)
  then show ?thesis
    by (simp add: Seed_eq_def ebind_def)
qed

lemma vector_validate: "validate_mnemonic vector_prims vector_wordlist vector_mnemonic = Inr True"
  by code_simp

lemma vector_mnemonic_nonempty: "vector_mnemonic \<noteq> []"
  by (simp add: vector_mnemonic_def)

lemma vector_seed_init:
  "\<exists>self. Seed_init vector_prims vector_wordlist (Some vector_mnemonic) = Inr self"
  using vector_validate vector_mnemonic_nonempty by (simp add: Seed_init_def ebind_def)

theorem Seed_eq_raises_AttributeError_witness:
  "\<exists>a. Seed_init vector_prims vector_wordlist (Some vector_mnemonic) = Inr a
     \<and> Seed_eq a (SeedInstance a) = Inl AttributeError \<and> Seed_eq a OtherValue = Inr False"
proof -
  from vector_seed_init obtain a
    where a: "Seed_init vector_prims vector_wordlist (Some vector_mnemonic) = Inr a" ..
  then have "Seed_reachable vector_prims vector_wordlist a"
    by (rule Seed_reachable.constructed)
  from Seed_eq_raises_AttributeError [OF this, of a] a show ?thesis
    by blast
qed

section \<open>The CashAddr address\<close>

lemma and_31_mod: "(x::int) AND 0x1F = x mod 32"
  using and_exp_mod [of x 5] by simp

lemma low40_group:
  assumes "k + 5 \<le> 40"
  shows "(x::int) mod 2 ^ 40 div 2 ^ k mod 2 ^ 5 = x div 2 ^ k mod 2 ^ 5"
proof -
  have "5 \<le> 40 - k"
    using assms by simp
  then have "take_bit 5 (drop_bit k (take_bit 40 x)) = take_bit 5 (drop_bit k x)"
    by (simp add: drop_bit_take_bit min_def)
  then show ?thesis
    by (simp add: take_bit_eq_mod drop_bit_eq_div)
qed

lemma checksum_group:
  assumes "i < 8"
  shows "drop_bit (5 * (7 - i)) (x::int) AND 0x1F = x mod 2 ^ 40 div 32 ^ (7 - i) mod 32"
proof -
  have "(32::int) ^ (7 - i) = 2 ^ (5 * (7 - i))"
    by (simp add: power_mult)
  moreover have "5 * (7 - i) + 5 \<le> 40"
    by simp
  ultimately show ?thesis
    using low40_group [of "5 * (7 - i)" x] by (simp add: and_31_mod drop_bit_eq_div)
qed

lemma create_checksum_eq: "create_checksum ''bitcoincash'' payload5 = checksum5 payload5"
proof -
  have "map (\<lambda>x. of_char x AND 0x1F) ''bitcoincash'' = map (\<lambda>c. (of_char c :: int) mod 32) ''bitcoincash''"
    by (simp only: and_31_mod)
  moreover have "[0, 0, 0, 0, 0, 0, 0, 0] = replicate 8 (0::int)"
    by (simp add: numeral_eq_Suc)
  ultimately have "create_checksum ''bitcoincash'' payload5
      = map (\<lambda>i. drop_bit (5 * (7 - i)) (polymod (polymod_input payload5)) AND 0x1F) [0..<8]"
    by (simp only: create_checksum_def polymod_input_def Let_def append_assoc)
  also have "\<dots> = checksum5 payload5"
    unfolding checksum5_def by (rule map_cong) (simp_all add: checksum_group)
  finally show ?thesis .
qed

lemma in_range_checksum5: "in_range 5 (checksum5 payload5)"
  by (simp add: in_range_def checksum5_def list_all_iff)

lemma in_range_append: "in_range w (xs @ ys) = (in_range w xs \<and> in_range w ys)"
  by (simp add: in_range_def)

lemma encode_base32_in_range:
  assumes "in_range 5 ds"
  shows "encode_base32 ds = Inr (base32_text ds)"
  using assms
proof (induction ds)
  case Nil
  then show ?case by (simp add: base32_text_def)
next
  case (Cons d ds)
  then have d: "0 \<le> d" "d < 32" and ds: "in_range 5 ds"
    by (simp_all add: in_range_def)
  have "py_getitem CHARSET d = Inr (CHARSET ! nat d)"
    using d by (simp add: py_getitem_def CHARSET_def)
  then show ?case
    using Cons.IH [OF ds] by (simp add: base32_text_def)
qed

lemma in_range_bytes: "in_range 8 (map uint (b :: bytes))"
proof -
  have "uint x < 2 ^ 8" for x :: byte
    using uint_bounded [of x] by simp
  then show ?thesis
    by (simp add: in_range_def list_all_iff)
qed

text \<open>
  Claim C7. For every public key, the CashAddr encoder returns \<open>bitcoincash:\<close> followed by
  the base-32 text of \<open>payload5 @ checksum5\<close>, where \<open>payload5\<close> is
  \<open>convert_bits(0x00 || hash160(pubkey), 8, 5, pad=True)\<close>, a list of 5-bit groups, and
  \<open>checksum5\<close> is the eight 5-bit groups of the low 40 bits of the polymod of the masked prefix
  characters, a zero, \<open>payload5\<close> and eight zeros. The loop of \<open>convert_bits\<close> terminates and no
  group is out of the alphabet's range.
\<close>

theorem public_key_to_cashaddr_address_encoding:
  "\<exists>payload5.
     convert_bits (map uint ([0] @ hash160 P pubkey)) 8 5 True = Some payload5
     \<and> in_range 5 payload5
     \<and> public_key_to_cashaddr_address P pubkey
         = Some (Inr (''bitcoincash:'' @ base32_text (payload5 @ checksum5 payload5)))"
proof -
  have "(0::nat) < 5"
    by simp
  from convert_bits_pad [OF this in_range_bytes, of "[0] @ hash160 P pubkey"]
  obtain payload5
    where c: "convert_bits (map uint ([0] @ hash160 P pubkey)) 8 5 True = Some payload5"
      and r: "in_range 5 payload5"
    by blast
  have "in_range 5 (payload5 @ checksum5 payload5)"
    using r in_range_checksum5 by (simp add: in_range_append)
  then have "encode_base32 (payload5 @ create_checksum ''bitcoincash'' payload5)
      = Inr (base32_text (payload5 @ checksum5 payload5))"
    by (simp only: create_checksum_eq encode_base32_in_range)
  then have "public_key_to_cashaddr_address P pubkey
      = Some (Inr (''bitcoincash:'' @ base32_text (payload5 @ checksum5 payload5)))"
    using c by (simp add: public_key_to_cashaddr_address_def Let_def)
  with c r show ?thesis by blast
qed

lemma vector_cashaddr:
  "public_key_to_cashaddr_address vector_prims vector_generator_pubkey
     = Some (Inr ''bitcoincash:qp63uahgrxged4z5jswyt5dn5v3lzsem6cy4spdc2h'')"
  by code_simp

theorem public_key_to_cashaddr_address_encoding_witness:
  "\<exists>payload5.
     convert_bits (map uint ([0] @ hash160 vector_prims vector_generator_pubkey)) 8 5 True
       = Some payload5
     \<and> in_range 5 payload5
     \<and> ''bitcoincash:'' @ base32_text (payload5 @ checksum5 payload5)
         = ''bitcoincash:qp63uahgrxged4z5jswyt5dn5v3lzsem6cy4spdc2h''"
proof -
  from public_key_to_cashaddr_address_encoding [of vector_prims vector_generator_pubkey]
  obtain payload5
    where "convert_bits (map uint ([0] @ hash160 vector_prims vector_generator_pubkey)) 8 5 True
             = Some payload5"
      and "in_range 5 payload5"
      and "public_key_to_cashaddr_address vector_prims vector_generator_pubkey
             = Some (Inr (''bitcoincash:'' @ base32_text (payload5 @ checksum5 payload5)))"
    by blast
  then show ?thesis
    using vector_cashaddr by auto
qed

section \<open>Hardened child keys\<close>

lemma int_from_bytes_Nil [simp]: "int_from_bytes [] = 0"
  by (simp add: int_from_bytes_def)

lemma int_from_bytes_snoc [simp]: "int_from_bytes (b @ [x]) = int_from_bytes b * 256 + uint x"
  by (simp add: int_from_bytes_def)

lemma length_be_bytes [simp]: "length (be_bytes k n) = k"
  by (induction k arbitrary: n) simp_all

lemma int_from_bytes_be_bytes: "int_from_bytes (be_bytes k n) = n mod 256 ^ k"
proof (induction k arbitrary: n)
  case 0
  then show ?case by simp
next
  case (Suc k)
  have "uint (word_of_int n :: byte) = n mod 256"
    by (simp add: uint_word_of_int)
  then have "int_from_bytes (be_bytes (Suc k) n) = (n div 256 mod 256 ^ k) * 256 + n mod 256"
    by (simp add: Suc.IH)
  also have "\<dots> = n mod (256 * 256 ^ k)"
    using zmod_zmult2_eq [of "256 ^ k" n 256] by simp
  finally show ?case by simp
qed

lemma int_from_bytes_be_bytes_id:
  assumes "0 \<le> n" "n < 256 ^ k"
  shows "int_from_bytes (be_bytes k n) = n"
  using assms by (simp add: int_from_bytes_be_bytes)

lemma hardened_index_range:
  assumes "0 \<le> (index::int)" "index < 2 ^ 32"
  shows "0 \<le> index OR 0x80000000" "index OR 0x80000000 < 256 ^ 4"
proof -
  show "0 \<le> index OR 0x80000000"
    using assms(1) by simp
  have "index OR 0x80000000 < 2 ^ 32"
    using assms by (intro OR_upper) simp_all
  then show "index OR 0x80000000 < 256 ^ 4"
    by simp
qed

lemma curve_order_range: "0 < curve_order" "curve_order < 256 ^ 32"
  by (simp_all add: curve_order_def)

lemma child_key_hardened_eval:
  assumes "parent_key \<noteq> []" "0 \<le> index" "index < 2 ^ 32"
    and "take 32 (hmac_sha512 P parent_chain_code
           ([0] @ parent_key @ be_bytes 4 (index OR 0x80000000))) \<noteq> []"
  shows "child_key_hardened P parent_key parent_chain_code index True =
     (let I = hmac_sha512 P parent_chain_code
                ([0] @ parent_key @ be_bytes 4 (index OR 0x80000000))
      in Inr (be_bytes 32 ((int_from_bytes (take 32 I) + int_from_bytes parent_key) mod curve_order),
              drop 32 I))"
proof -
  let ?I = "hmac_sha512 P parent_chain_code ([0] @ parent_key @ be_bytes 4 (index OR 0x80000000))"
  let ?s = "(int_from_bytes (take 32 ?I) + int_from_bytes parent_key) mod curve_order"
  have i: "int_to_bytes (index OR 0x80000000) 4 = Inr (be_bytes 4 (index OR 0x80000000))"
    using hardened_index_range [OF assms(2,3)] by (simp add: int_to_bytes_def)
  have "0 \<le> ?s" "?s < curve_order"
    using curve_order_range(1) by simp_all
  then have n: "number_to_string ?s = Inr (be_bytes 32 ?s)"
    using curve_order_range(2) by (simp add: number_to_string_def)
  have e: "(parent_key = []) = False" "(take 32 ?I = []) = False"
    using assms(1,4) by simp_all
  show ?thesis
    unfolding child_key_hardened_def Let_def
    by (simp only: i n e ebind_def sum.case string_to_number_def if_True if_False)
qed

text \<open>
  Claim C1. For a 32-byte parent key, a parent chain code and a 32-bit index, hardened
  derivation (\<open>child_key_hardened\<close> called with \<open>hardened=True\<close>) sets the top bit of the index,
  writes it on four big-endian bytes, computes \<open>I = HMAC-SHA512(chain code, 0x00 || key ||
  index bytes)\<close> and returns \<open>(int(I[0:32]) + int(key)) mod n\<close> on 32 big-endian bytes together
  with \<open>I[32:64]\<close>.
\<close>

theorem child_key_hardened_derivation:
  assumes "length parent_key = 32" "0 \<le> index" "index < 2 ^ 32"
    and "length (hmac_sha512 P parent_chain_code
           ([0] @ parent_key @ be_bytes 4 (index OR 0x80000000))) = 64"
  shows "let index_bytes = be_bytes 4 (index OR 0x80000000);
             I = hmac_sha512 P parent_chain_code ([0] @ parent_key @ index_bytes);
             childScalar = (int_from_bytes (take 32 I) + int_from_bytes parent_key) mod curve_order
         in length index_bytes = 4
          \<and> int_from_bytes index_bytes = index OR 0x80000000
          \<and> child_key_hardened P parent_key parent_chain_code index True
              = Inr (be_bytes 32 childScalar, drop 32 I)
          \<and> length (be_bytes 32 childScalar) = 32
          \<and> int_from_bytes (be_bytes 32 childScalar) = childScalar"
proof -
  let ?I = "hmac_sha512 P parent_chain_code ([0] @ parent_key @ be_bytes 4 (index OR 0x80000000))"
  let ?s = "(int_from_bytes (take 32 ?I) + int_from_bytes parent_key) mod curve_order"
  have k: "parent_key \<noteq> []" and t: "take 32 ?I \<noteq> []"
    using assms(1,4) by auto
  have "0 \<le> ?s" "?s < 256 ^ 32"
    using curve_order_range pos_mod_bound [of curve_order] by (simp, smt (verit))
  then have "int_from_bytes (be_bytes 32 ?s) = ?s"
    by (rule int_from_bytes_be_bytes_id)
  moreover have "int_from_bytes (be_bytes 4 (index OR 0x80000000)) = index OR 0x80000000"
    using hardened_index_range [OF assms(2,3)] by (rule int_from_bytes_be_bytes_id)
  ultimately show ?thesis
    using child_key_hardened_eval [OF k assms(2,3) t] by (simp add: Let_def)
qed

lemma vector_child_key:
  "child_key_hardened vector_prims vector_master_key vector_master_chain_code 0 True
     = Inr ([0xed, 0xb2, 0xe1, 0x4f, 0x9e, 0xe7, 0x7d, 0x26, 0xdd, 0x93, 0xb4, 0xec,
             0xed, 0xe8, 0xd1, 0x6e, 0xd4, 0x08, 0xce, 0x14, 0x9b, 0x6c, 0xd8, 0x0b,
             0x07, 0x15, 0xa2, 0xd9, 0x11, 0xa0, 0xaf, 0xea],
            [0x47, 0xfd, 0xac, 0xbd, 0x0f, 0x10, 0x97, 0x04, 0x3b, 0x78, 0xc6, 0x3c,
             0x20, 0xc3, 0x4e, 0xf4, 0xed, 0x9a, 0x11, 0x1d, 0x98, 0x00, 0x47, 0xad,
             0x16, 0x28, 0x2c, 0x7a, 0xe6, 0x23, 0x61, 0x41])"
  by code_simp

lemma vector_hmac_length:
  "length (hmac_sha512 vector_prims vector_master_chain_code
     ([0] @ vector_master_key @ be_bytes 4 (0 OR 0x80000000))) = 64"
  by code_simp

lemma vector_master_key_length: "length vector_master_key = 32"
  by code_simp

theorem child_key_hardened_derivation_witness:
  "length vector_master_key = 32
   \<and> child_key_hardened vector_prims vector_master_key vector_master_chain_code 0 True
       = Inr ([0xed, 0xb2, 0xe1, 0x4f, 0x9e, 0xe7, 0x7d, 0x26, 0xdd, 0x93, 0xb4, 0xec,
               0xed, 0xe8, 0xd1, 0x6e, 0xd4, 0x08, 0xce, 0x14, 0x9b, 0x6c, 0xd8, 0x0b,
               0x07, 0x15, 0xa2, 0xd9, 0x11, 0xa0, 0xaf, 0xea],
              [0x47, 0xfd, 0xac, 0xbd, 0x0f, 0x10, 0x97, 0x04, 0x3b, 0x78, 0xc6, 0x3c,
               0x20, 0xc3, 0x4e, 0xf4, 0xed, 0x9a, 0x11, 0x1d, 0x98, 0x00, 0x47, 0xad,
               0x16, 0x28, 0x2c, 0x7a, 0xe6, 0x23, 0x61, 0x41])
   \<and> (let index_bytes = be_bytes 4 (0 OR 0x80000000);
            I = hmac_sha512 vector_prims vector_master_chain_code
                  ([0] @ vector_master_key @ index_bytes);
            childScalar = (int_from_bytes (take 32 I) + int_from_bytes vector_master_key)
                            mod curve_order
        in length index_bytes = 4
         \<and> int_from_bytes index_bytes = 0 OR 0x80000000
         \<and> child_key_hardened vector_prims vector_master_key vector_master_chain_code 0 True
             = Inr (be_bytes 32 childScalar, drop 32 I)
         \<and> length (be_bytes 32 childScalar) = 32
         \<and> int_from_bytes (be_bytes 32 childScalar) = childScalar)"
proof -
  have "(0::int) \<le> 0" "(0::int) < 2 ^ 32"
    by simp_all
  from child_key_hardened_derivation [OF vector_master_key_length this vector_hmac_length]
  show ?thesis
    using vector_master_key_length vector_child_key by blast
qed

text \<open>
  \<open>child_key_hardened\<close> has no failing path after the index conversion: for a 32-byte parent
  key, a 32-bit index and a 64-byte HMAC it returns a key, the 32 big-endian bytes of
  \<open>(IL + k) mod n\<close>, which is below \<open>n\<close>.
\<close>

lemma child_key_hardened_returns_key:
  assumes "length parent_key = 32" "0 \<le> index" "index < 2 ^ 32"
    and "length (hmac_sha512 P parent_chain_code
           ([0] @ parent_key @ be_bytes 4 (index OR 0x80000000))) = 64"
  shows "\<exists>child chain_code.
     child_key_hardened P parent_key parent_chain_code index True = Inr (child, chain_code)
     \<and> length child = 32
     \<and> int_from_bytes child
         = (int_from_bytes (take 32 (hmac_sha512 P parent_chain_code
              ([0] @ parent_key @ be_bytes 4 (index OR 0x80000000))))
            + int_from_bytes parent_key) mod curve_order
     \<and> 0 \<le> int_from_bytes child \<and> int_from_bytes child < curve_order"
proof -
  let ?I = "hmac_sha512 P parent_chain_code ([0] @ parent_key @ be_bytes 4 (index OR 0x80000000))"
  let ?s = "(int_from_bytes (take 32 ?I) + int_from_bytes parent_key) mod curve_order"
  have k: "parent_key \<noteq> []" and t: "take 32 ?I \<noteq> []"
    using assms(1,4) by auto
  have s: "0 \<le> ?s" "?s < curve_order"
    using curve_order_range(1) by simp_all
  then have "?s < 256 ^ 32"
    using curve_order_range(2) by linarith
  with s(1) have v: "int_from_bytes (be_bytes 32 ?s) = ?s"
    by (rule int_from_bytes_be_bytes_id)
  have "child_key_hardened P parent_key parent_chain_code index True
          = Inr (be_bytes 32 ?s, drop 32 ?I)"
    using child_key_hardened_eval [OF k assms(2,3) t] by (simp add: Let_def)
  then show ?thesis
    using v s by (intro exI [of _ "be_bytes 32 ?s"] exI [of _ "drop 32 ?I"]) simp
qed

section \<open>Public child keys\<close>

text \<open>
  Claim C5, as stated, fails: with the hardened index \<open>0x80000000\<close> the function derives a
  child from the master public key of BIP-32 test vector 1 and raises nothing.
\<close>

theorem derive_public_child_key_hardened_index_accepted:
  "derive_public_child_key vector_prims vector_master_pubkey vector_master_chain_code 0x80000000
     = Inr ([0x03, 0x34, 0x77, 0x31, 0x41, 0x46, 0xc3, 0x99, 0x06, 0x10, 0x11, 0x35,
             0x3d, 0x1d, 0x51, 0x5f, 0xa0, 0x3e, 0xe2, 0xb0, 0x7e, 0x34, 0x8d, 0x75,
             0x2b, 0x84, 0x67, 0xdf, 0x55, 0xf7, 0x82, 0x43, 0xda],
            [0x89, 0x53, 0xb4, 0xc4, 0x12, 0x21, 0x4f, 0xbe, 0xd4, 0x05, 0x9e, 0xbf,
             0xbe, 0xf7, 0x0e, 0x83, 0xf4, 0x5e, 0x84, 0x5c, 0xf5, 0xf0, 0x50, 0xc2,
             0x79, 0x65, 0xa1, 0x2b, 0xbe, 0xe5, 0xaf, 0xfb])"
  by code_simp

text \<open>
  Claim C5, amended. \<open>derive_public_child_key\<close> has no test for hardened indices; its outcome
  is, for every parent public key, chain code and index:

  \<^item> an index outside \<open>[0, 2^32)\<close> raises \<open>OverflowError\<close> (it does not fit four bytes);
  \<^item> every index in \<open>[0, 2^32)\<close>, with the top bit set or not, is written on four big-endian
    bytes after the parent public key, and \<open>I\<close> is the HMAC-SHA512 of that under the chain code;
  \<^item> when the left half \<open>IL\<close> of \<open>I\<close> is \<open>n\<close> or more, \<open>ValueError\<close> is raised;
  \<^item> otherwise an exception of the elliptic-curve library, on the parent key or on the child
    point, is passed on;
  \<^item> otherwise the child \<open>compress(IL * G + parent)\<close> is returned with the right half of \<open>I\<close>
    as chain code.
\<close>

theorem derive_public_child_key_outcomes:
  "derive_public_child_key P parent_public_key_bytes parent_chain_code index
     = (if index < 0 \<or> 2 ^ 32 \<le> index then Inl OverflowError
        else let I = hmac_sha512 P parent_chain_code (parent_public_key_bytes @ be_bytes 4 index);
                 IL_int = int_from_bytes (take 32 I)
             in if curve_order \<le> IL_int then Inl ValueError
                else (case point_from_string P parent_public_key_bytes of
                        Inl e \<Rightarrow> Inl e
                      | Inr parent_point \<Rightarrow>
                          (case point_compressed P (generator_mul_add P IL_int parent_point) of
                             Inl e \<Rightarrow> Inl e
                           | Inr child \<Rightarrow> Inr (child, drop 32 I))))
   \<and> (0 \<le> index \<and> index < 2 ^ 32
        \<longrightarrow> length (be_bytes 4 index) = 4 \<and> int_from_bytes (be_bytes 4 index) = index)"
proof (rule conjI)
  show "derive_public_child_key P parent_public_key_bytes parent_chain_code index
     = (if index < 0 \<or> 2 ^ 32 \<le> index then Inl OverflowError
        else let I = hmac_sha512 P parent_chain_code (parent_public_key_bytes @ be_bytes 4 index);
                 IL_int = int_from_bytes (take 32 I)
             in if curve_order \<le> IL_int then Inl ValueError
                else (case point_from_string P parent_public_key_bytes of
                        Inl e \<Rightarrow> Inl e
                      | Inr parent_point \<Rightarrow>
                          (case point_compressed P (generator_mul_add P IL_int parent_point) of
                             Inl e \<Rightarrow> Inl e
                           | Inr child \<Rightarrow> Inr (child, drop 32 I))))"
    by (simp add: derive_public_child_key_def int_to_bytes_def ebind_def Let_def
             split: sum.splits)
next
  show "0 \<le> index \<and> index < 2 ^ 32
        \<longrightarrow> length (be_bytes 4 index) = 4 \<and> int_from_bytes (be_bytes 4 index) = index"
  proof (rule impI)
    assume h: "0 \<le> index \<and> index < 2 ^ 32"
    then have "index < 256 ^ 4"
      by simp
    with h show "length (be_bytes 4 index) = 4 \<and> int_from_bytes (be_bytes 4 index) = index"
      by (simp add: int_from_bytes_be_bytes_id)
  qed
qed

lemma vector_child_1:
  "derive_public_child_key vector_prims vector_master_pubkey vector_master_chain_code 1
     = Inr ([0x03, 0x7c, 0x20, 0x98, 0xfd, 0x22, 0x35, 0x66, 0x07, 0x34, 0x66, 0x7f,
             0xf8, 0x82, 0x1d, 0xbb, 0xe0, 0xe6, 0x59, 0x2d, 0x43, 0xcf, 0xd8, 0x6b,
             0x5d, 0xde, 0x9e, 0xa7, 0xc8, 0x39, 0xb9, 0x3a, 0x50],
            [0x8d, 0xd9, 0x64, 0x14, 0xff, 0x4d, 0x5b, 0x47, 0x50, 0xbe, 0x3a, 0xf7,
             0xfe, 0xcc, 0xe2, 0x07, 0x17, 0x3f, 0x86, 0xd6, 0xb5, 0xf5, 0x8f, 0x93,
             0x66, 0x29, 0x71, 0x80, 0xde, 0x8e, 0x10, 0x9b])"
  by code_simp

theorem derive_public_child_key_outcomes_witness:
  "derive_public_child_key vector_prims vector_master_pubkey vector_master_chain_code 0x100000000
     = Inl OverflowError
   \<and> derive_public_child_key vector_prims vector_master_pubkey vector_master_chain_code (- 1)
     = Inl OverflowError
   \<and> derive_public_child_key vector_prims vector_master_pubkey vector_master_chain_code 0x80000000
     = Inr ([0x03, 0x34, 0x77, 0x31, 0x41, 0x46, 0xc3, 0x99, 0x06, 0x10, 0x11, 0x35,
             0x3d, 0x1d, 0x51, 0x5f, 0xa0, 0x3e, 0xe2, 0xb0, 0x7e, 0x34, 0x8d, 0x75,
             0x2b, 0x84, 0x67, 0xdf, 0x55, 0xf7, 0x82, 0x43, 0xda],
            [0x89, 0x53, 0xb4, 0xc4, 0x12, 0x21, 0x4f, 0xbe, 0xd4, 0x05, 0x9e, 0xbf,
             0xbe, 0xf7, 0x0e, 0x83, 0xf4, 0x5e, 0x84, 0x5c, 0xf5, 0xf0, 0x50, 0xc2,
             0x79, 0x65, 0xa1, 0x2b, 0xbe, 0xe5, 0xaf, 0xfb])
   \<and> length (be_bytes 4 0x80000000) = 4
   \<and> int_from_bytes (be_bytes 4 0x80000000) = 0x80000000"
proof (intro conjI)
  show "derive_public_child_key vector_prims vector_master_pubkey vector_master_chain_code
          0x100000000 = Inl OverflowError"
    by (rule trans [OF derive_public_child_key_outcomes [THEN conjunct1]]) simp
  show "derive_public_child_key vector_prims vector_master_pubkey vector_master_chain_code
          (- 1) = Inl OverflowError"
    by (rule trans [OF derive_public_child_key_outcomes [THEN conjunct1]]) simp
  show "derive_public_child_key vector_prims vector_master_pubkey vector_master_chain_code
          0x80000000
     = Inr ([0x03, 0x34, 0x77, 0x31, 0x41, 0x46, 0xc3, 0x99, 0x06, 0x10, 0x11, 0x35,
             0x3d, 0x1d, 0x51, 0x5f, 0xa0, 0x3e, 0xe2, 0xb0, 0x7e, 0x34, 0x8d, 0x75,
             0x2b, 0x84, 0x67, 0xdf, 0x55, 0xf7, 0x82, 0x43, 0xda],
            [0x89, 0x53, 0xb4, 0xc4, 0x12, 0x21, 0x4f, 0xbe, 0xd4, 0x05, 0x9e, 0xbf,
             0xbe, 0xf7, 0x0e, 0x83, 0xf4, 0x5e, 0x84, 0x5c, 0xf5, 0xf0, 0x50, 0xc2,
             0x79, 0x65, 0xa1, 0x2b, 0xbe, 0xe5, 0xaf, 0xfb])"
    by (rule trans [OF derive_public_child_key_outcomes [THEN conjunct1]]) code_simp
  have r: "(0::int) \<le> 0x80000000 \<and> (0x80000000::int) < 2 ^ 32"
    by simp
  note t = derive_public_child_key_outcomes
      [where index = "0x80000000", THEN conjunct2, rule_format, OF r]
  from t show "length (be_bytes 4 0x80000000) = 4"
    by (rule conjunct1)
  from t show "int_from_bytes (be_bytes 4 0x80000000) = 0x80000000"
    by (rule conjunct2)
qed

section \<open>Extended keys\<close>

text \<open>
  Claim C3. For fields of the widths of an extended key, \<open>xpriv_encode\<close> and \<open>xpub_encode\<close>
  return Base58 of \<open>payload || SHA256(SHA256(payload))[0:4]\<close>, where \<open>payload\<close> is the version
  (\<open>0x0488ADE4\<close>, \<open>0x0488B21E\<close>), the depth, the parent fingerprint, the child index, the
  chain code and the key field (\<open>0x00 || key\<close>, or the compressed public key): 78 bytes.
\<close>

theorem extended_key_encoding:
  assumes "length depth = 1" "length father_fingerprint = 4" "length child_index = 4"
    and "length account_chain_code = 32" "length account_key = 32"
    and "length account_public_key = 33"
  shows "let payload_priv = be_bytes 4 0x0488ADE4 @ depth @ father_fingerprint @ child_index
                              @ account_chain_code @ [0x00] @ account_key;
             payload_pub = be_bytes 4 0x0488B21E @ depth @ father_fingerprint @ child_index
                              @ account_chain_code @ account_public_key
         in xpriv_encode P depth father_fingerprint child_index account_chain_code account_key
              = b58encode (payload_priv @ take 4 (sha256 P (sha256 P payload_priv)))
          \<and> xpub_encode P depth father_fingerprint child_index account_chain_code
                account_public_key
              = b58encode (payload_pub @ take 4 (sha256 P (sha256 P payload_pub)))
          \<and> length payload_priv = 78 \<and> length payload_pub = 78"
proof -
  have "be_bytes 4 0x0488ADE4 = [0x04, 0x88, 0xad, 0xe4]"
    "be_bytes 4 0x0488B21E = [0x04, 0x88, 0xb2, 0x1e]"
    by code_simp+
  then show ?thesis
    using assms by (simp add: xpriv_encode_def xpub_encode_def Let_def)
qed

lemma vector_lengths:
  "length vector_master_chain_code = 32" "length vector_master_key = 32"
  "length vector_master_pubkey = 33"
  by (simp_all add: vector_master_chain_code_def vector_master_key_def vector_master_pubkey_def)

lemma vector_payloads:
  "be_bytes 4 0x0488ADE4 @ [0] @ [0, 0, 0, 0] @ [0, 0, 0, 0] @ vector_master_chain_code
     @ [0x00] @ vector_master_key = vector_xpriv_payload"
  "be_bytes 4 0x0488B21E @ [0] @ [0, 0, 0, 0] @ [0, 0, 0, 0] @ vector_master_chain_code
     @ vector_master_pubkey = vector_xpub_payload"
  "take 4 (sha256 vector_prims (sha256 vector_prims vector_xpriv_payload))
     = [0xe7, 0x7e, 0x9d, 0x71]"
  "take 4 (sha256 vector_prims (sha256 vector_prims vector_xpub_payload))
     = [0xab, 0x47, 0x3b, 0x21]"
  by code_simp+

theorem extended_key_encoding_witness:
  "xpriv_encode vector_prims [0] [0, 0, 0, 0] [0, 0, 0, 0] vector_master_chain_code
     vector_master_key = b58encode (vector_xpriv_payload @ [0xe7, 0x7e, 0x9d, 0x71])
   \<and> xpub_encode vector_prims [0] [0, 0, 0, 0] [0, 0, 0, 0] vector_master_chain_code
     vector_master_pubkey = b58encode (vector_xpub_payload @ [0xab, 0x47, 0x3b, 0x21])
   \<and> length vector_xpriv_payload = 78 \<and> length vector_xpub_payload = 78"
proof -
  have "length [0 :: byte] = 1" "length [0, 0, 0, 0 :: byte] = 4"
    by simp_all
  from extended_key_encoding [OF this(1) this(2) this(2) vector_lengths, of vector_prims]
  show ?thesis
    by (simp only: vector_payloads Let_def)
qed

text \<open>
  Claim C4, as stated, fails: the extended public key of BIP-32 test vector 1 with its last
  character changed decodes to the same 78 bytes followed by a checksum that is not the
  double SHA-256 of them, and \<open>xpub_decode\<close> returns the six fields.
\<close>

theorem xpub_decode_accepts_wrong_checksum:
  "b58decode vector_xpub_damaged = Inr (vector_xpub_payload @ [0xab, 0x47, 0x3b, 0x22])
   \<and> take 4 (sha256 vector_prims (sha256 vector_prims vector_xpub_payload))
       = [0xab, 0x47, 0x3b, 0x21]
   \<and> xpub_decode vector_xpub_damaged
       = Inr ([0x04, 0x88, 0xb2, 0x1e], [0], [0, 0, 0, 0], [0, 0, 0, 0],
              vector_master_chain_code, vector_master_pubkey)"
  by code_simp

text \<open>
  Claim C4, amended. For every string, \<open>xpub_decode\<close> Base58-decodes it and returns the slices
  \<open>[0:4]\<close>, \<open>[4:5]\<close>, \<open>[5:9]\<close>, \<open>[9:13]\<close>, \<open>[13:45]\<close> and \<open>[45:-4]\<close> of the decoded bytes. It never
  reads the last four bytes and computes no checksum; an exception of the Base58 decoder is
  the only error. When the decoded bytes are 78 bytes followed by any four bytes, the slices
  are the six fields of the 78 bytes, of 4, 1, 4, 4, 32 and 33 bytes; a shorter decode gives
  shorter or empty slices, and no error.
\<close>

theorem xpub_decode_slices:
  "xpub_decode xpub
     = (case b58decode xpub of
          Inl e \<Rightarrow> Inl e
        | Inr b \<Rightarrow> Inr (take 4 b, take 1 (drop 4 b), take 4 (drop 5 b), take 4 (drop 9 b),
                         take 32 (drop 13 b), drop 45 (take (length b - 4) b)))
   \<and> (b58decode xpub = Inr (payload @ checksum) \<and> length payload = 78 \<and> length checksum = 4
        \<longrightarrow> xpub_decode xpub
             = Inr (take 4 payload, take 1 (drop 4 payload), take 4 (drop 5 payload),
                    take 4 (drop 9 payload), take 32 (drop 13 payload), drop 45 payload)
           \<and> length (take 4 payload) = 4 \<and> length (take 1 (drop 4 payload)) = 1
           \<and> length (take 4 (drop 5 payload)) = 4 \<and> length (take 4 (drop 9 payload)) = 4
           \<and> length (take 32 (drop 13 payload)) = 32 \<and> length (drop 45 payload) = 33)"
  by (simp add: xpub_decode_def ebind_def split: sum.splits)

lemma vector_xpub_damaged_decode:
  "b58decode vector_xpub_damaged = Inr (vector_xpub_payload @ [0xab, 0x47, 0x3b, 0x22])"
  "length vector_xpub_payload = 78"
  by code_simp+

theorem xpub_decode_slices_witness:
  "xpub_decode ''xpub0'' = Inl ValueError
   \<and> xpub_decode [] = Inr ([], [], [], [], [], [])
   \<and> xpub_decode ''xpub'' = Inr ([166, 52, 30], [], [], [], [], [])
   \<and> xpub_decode vector_xpub_damaged
       = Inr (take 4 vector_xpub_payload, take 1 (drop 4 vector_xpub_payload),
              take 4 (drop 5 vector_xpub_payload), take 4 (drop 9 vector_xpub_payload),
              take 32 (drop 13 vector_xpub_payload), drop 45 vector_xpub_payload)
   \<and> length (drop 45 vector_xpub_payload) = 33"
proof (intro conjI)
  show "xpub_decode ''xpub0'' = Inl ValueError"
    by (rule trans [OF xpub_decode_slices [THEN conjunct1]]) code_simp
  show "xpub_decode [] = Inr ([], [], [], [], [], [])"
    by (rule trans [OF xpub_decode_slices [THEN conjunct1]]) code_simp
  show "xpub_decode ''xpub'' = Inr ([166, 52, 30], [], [], [], [], [])"
    by (rule trans [OF xpub_decode_slices [THEN conjunct1]]) code_simp
  have l: "length [0xab, 0x47, 0x3b, 0x22 :: byte] = 4"
    by simp
  note t = xpub_decode_slices [THEN conjunct2, rule_format,
      OF conjI [OF vector_xpub_damaged_decode(1) conjI [OF vector_xpub_damaged_decode(2) l]]]
  from t show "xpub_decode vector_xpub_damaged
       = Inr (take 4 vector_xpub_payload, take 1 (drop 4 vector_xpub_payload),
              take 4 (drop 5 vector_xpub_payload), take 4 (drop 9 vector_xpub_payload),
              take 32 (drop 13 vector_xpub_payload), drop 45 vector_xpub_payload)"
    by (rule conjunct1)
  from t show "length (drop 45 vector_xpub_payload) = 33"
    by (simp only:)
qed

section \<open>The seed\<close>

lemma hex_digits_table:
  "list_all (\<lambda>n. hex_value (hex_digit n) = Some n \<and> \<not> ascii_space (hex_digit n)) [0..<16]"
  by code_simp

lemma hex_digit_value:
  assumes "n < 16"
  shows "hex_value (hex_digit n) = Some n" "\<not> ascii_space (hex_digit n)"
  using hex_digits_table assms by (simp_all add: list_all_iff)

lemma byte_of_nibbles: "(of_nat (unat x div 16 * 16 + unat x mod 16) :: byte) = x"
  by simp

lemma bytes_fromhex_hex: "bytes_fromhex (bytes_hex b) = Inr b"
proof (induction b)
  case Nil
  then show ?case by (simp add: bytes_hex_def)
next
  case (Cons x b)
  have d: "unat x div 16 < 16" "unat x mod 16 < 16"
  proof -
    have "unat x < 256"
      using unsigned_less [of x, where ?'a = nat] by simp
    then show "unat x div 16 < 16"
      by simp
    show "unat x mod 16 < 16"
      by simp
  qed
  have "bytes_hex (x # b) = hex_digit (unat x div 16) # hex_digit (unat x mod 16) # bytes_hex b"
    by (simp add: bytes_hex_def)
  then show ?case
    using Cons.IH hex_digit_value [OF d(1)] hex_digit_value [OF d(2)] byte_of_nibbles [of x]
    by simp
qed

text \<open>
  Claim C2. For a mnemonic and a passphrase that UTF-8 can encode, the seed \<open>generate_seed\<close>
  derives is PBKDF2-HMAC-SHA512 of the UTF-8 bytes of the words joined by single spaces, with
  the salt \<open>"mnemonic"\<close> followed by the UTF-8 bytes of the passphrase, 2048 iterations and 64
  bytes of output. The code passes it on as a hexadecimal string, which \<open>bytes.fromhex\<close>
  turns back into the same bytes for the master key.
\<close>

theorem seed_is_pbkdf2_hmac_sha512:
  assumes "utf8_encode (str_join (lit '' '') mnemonic) = Inr mnemonic_bytes"
    and "utf8_encode passphrase = Inr passphrase_bytes"
  shows "let seed = pbkdf2_hmac P ''sha512'' mnemonic_bytes
                      (ascii_bytes ''mnemonic'' @ passphrase_bytes) 2048 64
         in generate_seed_hexa P mnemonic passphrase = Inr (bytes_hex seed)
          \<and> bytes_fromhex (bytes_hex seed) = Inr seed
          \<and> get_private_and_code P (bytes_hex seed)
              = Inr (take 32 (hmac_sha512 P (ascii_bytes ''Bitcoin seed'') seed),
                     drop 32 (hmac_sha512 P (ascii_bytes ''Bitcoin seed'') seed))"
  using assms
  by (simp add: generate_seed_hexa_def mnemonic_str_def seed_generator_def
      get_private_and_code_def ebind_def Let_def bytes_fromhex_hex)


lemma vector_seed_hyps:
  "utf8_encode (str_join (lit '' '') vector_mnemonic)
     = Inr (ascii_bytes (''abandon abandon abandon abandon abandon abandon abandon abandon ''
                          @ ''abandon abandon abandon about''))"
  "utf8_encode (lit ''TREZOR'') = Inr (ascii_bytes ''TREZOR'')"
  "pbkdf2_hmac vector_prims ''sha512''
     (ascii_bytes (''abandon abandon abandon abandon abandon abandon abandon abandon ''
                    @ ''abandon abandon abandon about''))
     (ascii_bytes ''mnemonic'' @ ascii_bytes ''TREZOR'') 2048 64 = vector_seed"
  by code_simp+

theorem seed_is_pbkdf2_hmac_sha512_witness:
  "generate_seed_hexa vector_prims vector_mnemonic (lit ''TREZOR'') = Inr (bytes_hex vector_seed)
   \<and> bytes_fromhex (bytes_hex vector_seed) = Inr vector_seed
   \<and> get_private_and_code vector_prims (bytes_hex vector_seed)
       = Inr (take 32 (hmac_sha512 vector_prims (ascii_bytes ''Bitcoin seed'') vector_seed),
              drop 32 (hmac_sha512 vector_prims (ascii_bytes ''Bitcoin seed'') vector_seed))"
  using seed_is_pbkdf2_hmac_sha512 [OF vector_seed_hyps(1,2), of vector_prims]
  by (simp only: vector_seed_hyps(3) Let_def)

lemma vector_seed_hex:
  "bytes_hex vector_seed
     = ''c55257c360c07c72029aebc1b53c05ed0362ada38ead3e3e9efa3708e5349553''
       @ ''1f09a6987599d18264c1e1c92f2cf141630c7a3c4ab7c81b2f001698e7463b04''"
  by code_simp

section \<open>Mnemonic validation\<close>

lemma mnemonic_word_bits_absent:
  assumes "find (\<lambda>w. w \<notin> set wordlist) mnemonic = Some word"
  shows "mnemonic_word_bits wordlist mnemonic
           = Inl (InvalidSeedException (word_not_in_wordlist_message word))"
  using assms
proof (induction mnemonic)
  case Nil
  then show ?case by simp
next
  case (Cons w ws)
  show ?case
  proof (cases "w \<in> set wordlist")
    case True
    with Cons show ?thesis
      by (simp add: list_index_def ebind_def)
  next
    case False
    with Cons.prems have "word = w"
      by simp
    with False show ?thesis
      by (simp add: list_index_def word_not_in_wordlist_message_def)
  qed
qed

lemma mnemonic_word_bits_present:
  assumes "set mnemonic \<subseteq> set wordlist"
  shows "\<exists>bs. mnemonic_word_bits wordlist mnemonic = Inr bs"
  using assms
  by (induction mnemonic) (auto simp add: list_index_def ebind_def)

lemma int_of_bin_snoc:
  "int_of_bin (s @ [c]) = 2 * int_of_bin s + (if c = CHR ''1'' then 1 else 0)"
  by (simp add: int_of_bin_def)

lemma int_of_bin_range: "0 \<le> int_of_bin s \<and> int_of_bin s < 2 ^ length s"
proof (induction s rule: rev_induct)
  case Nil
  then show ?case by (simp add: int_of_bin_def)
next
  case (snoc c s)
  then show ?case
    by (simp add: int_of_bin_snoc)
qed

lemma entropy_to_bytes:
  assumes "length s mod 8 = 0"
  shows "int_to_bytes (int_of_bin s) (length s div 8) = Inr (be_bytes (length s div 8) (int_of_bin s))"
proof -
  have "(256::int) ^ (length s div 8) = 2 ^ (8 * (length s div 8))"
    by (simp add: power_mult)
  also have "8 * (length s div 8) = length s"
    using assms by auto
  finally show ?thesis
    using int_of_bin_range [of s] by (simp add: int_to_bytes_def)
qed

lemma checksum_bits_supported:
  assumes "len \<in> set supported_bit_lengths"
  shows "checksum_bits_of len = Some (len div 33)" "(len - len div 33) mod 8 = 0"
    "len div 33 \<le> len"
  using assms by (auto simp add: supported_bit_lengths_def checksum_bits_of_def)

lemma checksum_bits_unsupported:
  assumes "len \<notin> set supported_bit_lengths"
  shows "checksum_bits_of len = None"
  using assms by (simp add: supported_bit_lengths_def checksum_bits_of_def)

lemma validate_mnemonic_supported:
  assumes "mnemonic_word_bits wordlist mnemonic = Inr bs"
    and "length (concat bs) \<in> set supported_bit_lengths"
  shows "validate_mnemonic P wordlist mnemonic =
     (if trailing_checksum (concat bs) \<noteq> recomputed_checksum P (concat bs)
      then Inl (InvalidSeedException (lit ''Checksum validation failed''))
      else Inr True)"
proof -
  let ?bits = "concat bs"
  let ?cs = "length ?bits div 33"
  let ?e = "take (length ?bits - ?cs) ?bits"
  have l: "length ?e = length ?bits - ?cs"
    by simp
  then have m: "length ?e mod 8 = 0"
    using checksum_bits_supported(2) [OF assms(2)] by simp
  have b: "int_to_bytes (int_of_bin ?e) (length ?e div 8) = Inr (entropy_bytes ?bits)"
    using entropy_to_bytes [OF m] by (simp only: l entropy_bytes_def)
  show ?thesis
    unfolding validate_mnemonic_def assms(1) ebind_def Let_def
    using checksum_bits_supported(1) [OF assms(2)] m b
    by (simp add: trailing_checksum_def recomputed_checksum_def)
qed

text \<open>
  Claim C8, amended. \<open>_validate_mnemonic\<close> raises one exception type, \<open>InvalidSeedException\<close>,
  for all its failures, which the message alone tells apart: for the first word that is not
  in the word list, \<open>Word '<word>' not in wordlist\<close>; with all words in the list and a bit
  length outside 132, 165, 198, 231, 264, \<open>Invalid mnemonic length\<close>; with a supported length
  and a recomputed checksum that differs from the trailing bits, \<open>Checksum validation
  failed\<close>. Otherwise it returns \<open>True\<close>. The three messages are pairwise different.
\<close>

theorem validate_mnemonic_failures:
  "(find (\<lambda>w. w \<notin> set wordlist) mnemonic = Some word \<longrightarrow>
      validate_mnemonic P wordlist mnemonic
        = Inl (InvalidSeedException (word_not_in_wordlist_message word)))
   \<and> (set mnemonic \<subseteq> set wordlist
        \<and> length (mnemonic_bits wordlist mnemonic) \<notin> set supported_bit_lengths \<longrightarrow>
      validate_mnemonic P wordlist mnemonic
        = Inl (InvalidSeedException (lit ''Invalid mnemonic length'')))
   \<and> (set mnemonic \<subseteq> set wordlist
        \<and> length (mnemonic_bits wordlist mnemonic) \<in> set supported_bit_lengths
        \<and> trailing_checksum (mnemonic_bits wordlist mnemonic)
            \<noteq> recomputed_checksum P (mnemonic_bits wordlist mnemonic) \<longrightarrow>
      validate_mnemonic P wordlist mnemonic
        = Inl (InvalidSeedException (lit ''Checksum validation failed'')))
   \<and> (set mnemonic \<subseteq> set wordlist
        \<and> length (mnemonic_bits wordlist mnemonic) \<in> set supported_bit_lengths
        \<and> trailing_checksum (mnemonic_bits wordlist mnemonic)
            = recomputed_checksum P (mnemonic_bits wordlist mnemonic) \<longrightarrow>
      validate_mnemonic P wordlist mnemonic = Inr True)
   \<and> word_not_in_wordlist_message word \<noteq> lit ''Invalid mnemonic length''
   \<and> word_not_in_wordlist_message word \<noteq> lit ''Checksum validation failed''
   \<and> lit ''Invalid mnemonic length'' \<noteq> lit ''Checksum validation failed''"
proof -
  have a: "validate_mnemonic P wordlist mnemonic
             = Inl (InvalidSeedException (word_not_in_wordlist_message word))"
    if "find (\<lambda>w. w \<notin> set wordlist) mnemonic = Some word"
    using mnemonic_word_bits_absent [OF that] by (simp add: validate_mnemonic_def ebind_def)
  have b: "validate_mnemonic P wordlist mnemonic
             = Inl (InvalidSeedException (lit ''Invalid mnemonic length''))"
    if "set mnemonic \<subseteq> set wordlist"
      and "length (mnemonic_bits wordlist mnemonic) \<notin> set supported_bit_lengths"
  proof -
    from mnemonic_word_bits_present [OF that(1)]
    obtain bs where bs: "mnemonic_word_bits wordlist mnemonic = Inr bs" ..
    then have "checksum_bits_of (length (concat bs)) = None"
      using that(2) by (simp add: mnemonic_bits_def checksum_bits_unsupported)
    then show ?thesis
      by (simp add: validate_mnemonic_def bs ebind_def Let_def)
  qed
  have c: "validate_mnemonic P wordlist mnemonic =
     (if trailing_checksum (mnemonic_bits wordlist mnemonic)
           \<noteq> recomputed_checksum P (mnemonic_bits wordlist mnemonic)
      then Inl (InvalidSeedException (lit ''Checksum validation failed''))
      else Inr True)"
    if "set mnemonic \<subseteq> set wordlist"
      and "length (mnemonic_bits wordlist mnemonic) \<in> set supported_bit_lengths"
  proof -
    from mnemonic_word_bits_present [OF that(1)]
    obtain bs where bs: "mnemonic_word_bits wordlist mnemonic = Inr bs" ..
    then have m: "mnemonic_bits wordlist mnemonic = concat bs"
      by (simp add: mnemonic_bits_def)
    show ?thesis
      using validate_mnemonic_supported [where P = P, OF bs] that(2) by (simp add: m)
  qed
  have d: "word_not_in_wordlist_message word \<noteq> lit ''Invalid mnemonic length''"
    "word_not_in_wordlist_message word \<noteq> lit ''Checksum validation failed''"
    "lit ''Invalid mnemonic length'' \<noteq> lit ''Checksum validation failed''"
    by (simp_all add: word_not_in_wordlist_message_def lit_def)
  show ?thesis
    using a b c d by simp
qed

text \<open>
  Claim C8, as stated, fails: a word outside the list, a wrong length and a wrong checksum
  raise exceptions of one and the same class, not three typed conditions.
\<close>

theorem validate_mnemonic_one_exception_class:
  "validate_mnemonic vector_prims vector_wordlist [lit ''zoo'']
     = Inl (InvalidSeedException (lit ''Word '' @ [39] @ lit ''zoo'' @ [39] @ lit '' not in wordlist''))
   \<and> validate_mnemonic vector_prims vector_wordlist [lit ''abandon'']
     = Inl (InvalidSeedException (lit ''Invalid mnemonic length''))
   \<and> validate_mnemonic vector_prims vector_wordlist (replicate 12 (lit ''abandon''))
     = Inl (InvalidSeedException (lit ''Checksum validation failed''))
   \<and> exception_class (InvalidSeedException
         (lit ''Word '' @ [39] @ lit ''zoo'' @ [39] @ lit '' not in wordlist''))
       = exception_class (InvalidSeedException (lit ''Invalid mnemonic length''))
   \<and> exception_class (InvalidSeedException (lit ''Invalid mnemonic length''))
       = exception_class (InvalidSeedException (lit ''Checksum validation failed''))"
  by code_simp

lemma vector_validate_hyps:
  "find (\<lambda>w. w \<notin> set vector_wordlist) [lit ''zoo''] = Some (lit ''zoo'')"
  "set [lit ''abandon''] \<subseteq> set vector_wordlist"
  "length (mnemonic_bits vector_wordlist [lit ''abandon'']) \<notin> set supported_bit_lengths"
  "set (replicate 12 (lit ''abandon'')) \<subseteq> set vector_wordlist"
  "length (mnemonic_bits vector_wordlist (replicate 12 (lit ''abandon'')))
     \<in> set supported_bit_lengths"
  "trailing_checksum (mnemonic_bits vector_wordlist (replicate 12 (lit ''abandon'')))
     \<noteq> recomputed_checksum vector_prims
         (mnemonic_bits vector_wordlist (replicate 12 (lit ''abandon'')))"
  "set vector_mnemonic \<subseteq> set vector_wordlist"
  "length (mnemonic_bits vector_wordlist vector_mnemonic) \<in> set supported_bit_lengths"
  "trailing_checksum (mnemonic_bits vector_wordlist vector_mnemonic)
     = recomputed_checksum vector_prims (mnemonic_bits vector_wordlist vector_mnemonic)"
  by code_simp+

theorem validate_mnemonic_failures_witness:
  "validate_mnemonic vector_prims vector_wordlist [lit ''zoo'']
     = Inl (InvalidSeedException (word_not_in_wordlist_message (lit ''zoo'')))
   \<and> validate_mnemonic vector_prims vector_wordlist [lit ''abandon'']
     = Inl (InvalidSeedException (lit ''Invalid mnemonic length''))
   \<and> validate_mnemonic vector_prims vector_wordlist (replicate 12 (lit ''abandon''))
     = Inl (InvalidSeedException (lit ''Checksum validation failed''))
   \<and> validate_mnemonic vector_prims vector_wordlist vector_mnemonic = Inr True"
proof (intro conjI)
  note h = vector_validate_hyps
  show "validate_mnemonic vector_prims vector_wordlist [lit ''zoo'']
     = Inl (InvalidSeedException (word_not_in_wordlist_message (lit ''zoo'')))"
    by (rule validate_mnemonic_failures [THEN conjunct1, rule_format, OF h(1)])
  show "validate_mnemonic vector_prims vector_wordlist [lit ''abandon'']
     = Inl (InvalidSeedException (lit ''Invalid mnemonic length''))"
    by (rule validate_mnemonic_failures
        [THEN conjunct2, THEN conjunct1, rule_format, OF conjI [OF h(2) h(3)]])
  show "validate_mnemonic vector_prims vector_wordlist (replicate 12 (lit ''abandon''))
     = Inl (InvalidSeedException (lit ''Checksum validation failed''))"
    by (rule validate_mnemonic_failures
        [THEN conjunct2, THEN conjunct2, THEN conjunct1, rule_format,
         OF conjI [OF h(4) conjI [OF h(5) h(6)]]])
  show "validate_mnemonic vector_prims vector_wordlist vector_mnemonic = Inr True"
    by (rule validate_mnemonic_failures
        [THEN conjunct2, THEN conjunct2, THEN conjunct2, THEN conjunct1, rule_format,
         OF conjI [OF h(7) conjI [OF h(8) h(9)]]])
qed

section \<open>Base58: decoding what was encoded\<close>

lemma takeWhile_neq_nth:
  assumes "distinct xs" "k < length xs"
  shows "length (takeWhile (\<lambda>x. x \<noteq> xs ! k) xs) = k"
proof -
  have "takeWhile (\<lambda>x. x \<noteq> xs ! k) xs = take k xs"
  proof (rule takeWhile_eq_take_P_nth)
    fix i assume "i < k" "i < length xs"
    then show "xs ! i \<noteq> xs ! k"
      using assms by (simp add: nth_eq_iff_index_eq)
  next
    show "\<not> xs ! k \<noteq> xs ! k"
      by simp
  qed
  then show ?thesis
    using assms(2) by simp
qed

lemma alphabet_length: "length BITCOIN_ALPHABET = 58"
  by (simp add: BITCOIN_ALPHABET_def)

lemma alphabet_distinct: "distinct BITCOIN_ALPHABET"
  by (simp add: BITCOIN_ALPHABET_def)

lemma alphabet_chars:
  "\<forall>c \<in> set BITCOIN_ALPHABET. \<not> py_space c \<and> \<not> 128 \<le> (of_char c :: nat)"
  by (simp add: BITCOIN_ALPHABET_def py_space_def)

lemma b58_index_nth:
  assumes "k < 58"
  shows "b58_index (BITCOIN_ALPHABET ! k) = Some (int k)"
  using assms takeWhile_neq_nth [OF alphabet_distinct, of k]
  by (simp add: b58_index_def alphabet_length)

lemma b58decode_int_snoc:
  "b58decode_int a (cs @ [c])
     = (case b58decode_int a cs of
          Inl e \<Rightarrow> Inl e
        | Inr n \<Rightarrow> (case b58_index c of None \<Rightarrow> Inl ValueError | Some d \<Rightarrow> Inr (n * 58 + d)))"
  by (induction cs arbitrary: a) (simp_all split: option.splits)

lemma b58decode_int_encode:
  "0 \<le> n \<Longrightarrow> b58decode_int 0 (b58encode_int n) = Inr n"
proof (induction n rule: b58encode_int.induct)
  case (1 i)
  show ?case
  proof (cases "i \<le> 0")
    case True
    with 1 show ?thesis
      by (simp add: b58encode_int.simps)
  next
    case False
    then have d: "0 \<le> i div 58" and m: "nat (i mod 58) < 58"
      by simp_all
    have "int (nat (i mod 58)) = i mod 58"
      by simp
    then show ?thesis
      using False 1(1) [OF False d] b58_index_nth [OF m]
      by (subst b58encode_int.simps) (simp add: b58decode_int_snoc)
  qed
qed

lemma b58encode_int_set: "set (b58encode_int n) \<subseteq> set BITCOIN_ALPHABET"
proof (induction n rule: b58encode_int.induct)
  case (1 i)
  show ?case
  proof (cases "i \<le> 0")
    case True
    then show ?thesis
      by (simp add: b58encode_int.simps)
  next
    case False
    then have "nat (i mod 58) < length BITCOIN_ALPHABET"
      by (simp add: alphabet_length)
    then have "BITCOIN_ALPHABET ! nat (i mod 58) \<in> set BITCOIN_ALPHABET"
      by (rule nth_mem)
    then show ?thesis
      using False 1 [OF False] by (subst b58encode_int.simps) simp
  qed
qed

lemma b58encode_int_hd:
  "0 < n \<Longrightarrow> b58encode_int n \<noteq> [] \<and> hd (b58encode_int n) \<noteq> BITCOIN_ALPHABET ! 0"
proof (induction n rule: b58encode_int.induct)
  case (1 i)
  then have p: "\<not> i \<le> 0"
    by simp
  show ?case
  proof (cases "0 < i div 58")
    case True
    from 1(1) [OF p True] show ?thesis
      using p by (subst (1 2) b58encode_int.simps) simp
  next
    case False
    with 1(2) have z: "i div 58 = 0"
      by (simp add: not_less)
    then have e: "b58encode_int (i div 58) = []"
      by (simp add: b58encode_int.simps)
    from z 1(2) have m: "i mod 58 = i" "i < 58"
      by (simp_all add: div_pos_pos_trivial zdiv_eq_0_iff)
    have "nat i < 58" "nat i \<noteq> 0" "0 < (58::nat)"
      using m 1(2) by simp_all
    then have "BITCOIN_ALPHABET ! nat i \<noteq> BITCOIN_ALPHABET ! 0"
      using alphabet_distinct by (simp add: nth_eq_iff_index_eq alphabet_length)
    then show ?thesis
      using p e m by (subst (1 2) b58encode_int.simps) simp
  qed
qed

lemma rstrip_id:
  assumes "\<forall>c \<in> set s. \<not> py_space c"
  shows "rstrip s = s"
proof -
  have "dropWhile py_space (rev s) = rev s"
  proof (cases "rev s")
    case Nil
    then show ?thesis
      by simp
  next
    case (Cons a as)
    then have "a \<in> set (rev s)"
      by simp
    then have "a \<in> set s"
      by simp
    with assms have "\<not> py_space a"
      by blast
    with Cons show ?thesis
      by simp
  qed
  then show ?thesis
    by (simp add: rstrip_def)
qed

lemma int_from_bytes_nonneg: "0 \<le> int_from_bytes bs"
  by (induction bs rule: rev_induct) simp_all

lemma int_from_bytes_pos:
  "bs \<noteq> [] \<Longrightarrow> hd bs \<noteq> 0 \<Longrightarrow> 0 < int_from_bytes bs"
proof (induction bs rule: rev_induct)
  case Nil
  then show ?case by simp
next
  case (snoc x xs)
  show ?case
  proof (cases "xs = []")
    case True
    with snoc.prems have "x \<noteq> 0"
      by simp
    then have "0 < uint x"
      by (simp add: word_greater_zero_iff uint_0_iff less_le)
    with True show ?thesis
      by (simp add: int_from_bytes_def)
  next
    case False
    with snoc have "0 < int_from_bytes xs"
      by simp
    then show ?thesis
      by (simp add: add_pos_nonneg)
  qed
qed

lemma min_bytes_int_from_bytes:
  "bs = [] \<or> hd bs \<noteq> 0 \<Longrightarrow> min_bytes (int_from_bytes bs) = bs"
proof (induction bs rule: rev_induct)
  case Nil
  then show ?case
    by (simp add: min_bytes.simps)
next
  case (snoc x xs)
  then have h: "hd (xs @ [x]) \<noteq> 0"
    by simp
  then have p: "0 < int_from_bytes (xs @ [x])"
    by (intro int_from_bytes_pos) simp_all
  have r: "xs = [] \<or> hd xs \<noteq> 0"
    using h by (cases xs) simp_all
  have u: "0 \<le> uint x" "uint x < 256"
    using uint_bounded [of x] by simp_all
  then have d: "(int_from_bytes xs * 256 + uint x) div 256 = int_from_bytes xs"
    by simp
  have w: "(word_of_int (int_from_bytes xs * 256 + uint x) :: byte) = x"
  proof -
    have "(word_of_int (int_from_bytes xs * 256 + uint x) :: byte)
            = word_of_int (int_from_bytes xs) * 256 + x"
      by simp
    also have "(256 :: byte) = 0"
      by simp
    finally show ?thesis
      by simp
  qed
  show ?case
    using p snoc.IH [OF r] d w by (subst min_bytes.simps) simp
qed

lemma dropWhile_replicate_app:
  assumes "ys = [] \<or> hd ys \<noteq> a"
  shows "dropWhile (\<lambda>c. c = a) (replicate k a @ ys) = ys"
  using assms by (induction k) (auto simp: dropWhile_eq_self_iff [THEN iffD2])

lemma takeWhile_replicate:
  "length (takeWhile (\<lambda>b. b = a) v) = n \<Longrightarrow> takeWhile (\<lambda>b. b = a) v = replicate n a"
  by (induction v arbitrary: n) auto

lemma b58decode_b58encode: "b58decode (b58encode v) = Inr v"
proof -
  let ?s = "dropWhile (\<lambda>b. b = 0) v"
  let ?z = "length v - length ?s"
  let ?e = "b58encode_int (int_from_bytes ?s)"
  let ?t = "replicate ?z (BITCOIN_ALPHABET ! 0) @ ?e"
  have enc: "b58encode v = ?t"
    by (simp add: b58encode_def Let_def)
  have s: "?s = [] \<or> hd ?s \<noteq> 0"
    using hd_dropWhile [of "\<lambda>b. b = 0" v] by blast
  have z: "replicate ?z 0 @ ?s = v"
  proof -
    have "length (takeWhile (\<lambda>b. b = 0) v @ ?s) = length v"
      by (simp only: takeWhile_dropWhile_id)
    then have "length (takeWhile (\<lambda>b. b = 0) v) = ?z"
      by (simp only: length_append)
    then have "takeWhile (\<lambda>b. b = 0) v = replicate ?z 0"
      by (rule takeWhile_replicate)
    then show ?thesis
      using takeWhile_dropWhile_id [of "\<lambda>b. b = 0" v] by simp
  qed
  have "BITCOIN_ALPHABET ! 0 \<in> set BITCOIN_ALPHABET"
    by (rule nth_mem) (simp add: alphabet_length)
  then have "set ?t \<subseteq> set BITCOIN_ALPHABET"
    using b58encode_int_set [of "int_from_bytes ?s"] by auto
  then have c: "\<forall>c \<in> set ?t. \<not> py_space c \<and> \<not> 128 \<le> (of_char c :: nat)"
    using alphabet_chars by blast
  then have r: "rstrip ?t = ?t"
    by (intro rstrip_id) blast
  have e: "?e = [] \<or> hd ?e \<noteq> BITCOIN_ALPHABET ! 0"
  proof (cases "?s = []")
    case True
    have "b58encode_int 0 = []"
      by (subst b58encode_int.simps) simp
    with True show ?thesis
      by (simp only: int_from_bytes_Nil) simp
  next
    case False
    with s have "hd ?s \<noteq> 0"
      by blast
    with False have "0 < int_from_bytes ?s"
      by (rule int_from_bytes_pos)
    then have "?e \<noteq> [] \<and> hd ?e \<noteq> BITCOIN_ALPHABET ! 0"
      by (rule b58encode_int_hd)
    then have "hd ?e \<noteq> BITCOIN_ALPHABET ! 0"
      by (rule conjunct2)
    then show ?thesis
      by (rule disjI2)
  qed
  then have d: "dropWhile (\<lambda>c. c = BITCOIN_ALPHABET ! 0) ?t = ?e"
    by (rule dropWhile_replicate_app)
  have l: "length ?t - length ?e = ?z"
    by simp
  have i: "b58decode_int 0 ?e = Inr (int_from_bytes ?s)"
    by (rule b58decode_int_encode) (rule int_from_bytes_nonneg)
  have m: "min_bytes (int_from_bytes ?s) = ?s"
    using s by (rule min_bytes_int_from_bytes)
  have "b58decode ?t = Inr (replicate ?z 0 @ ?s)"
    unfolding b58decode_def r Let_def d l i using c m by (simp del: set_append)
  then show ?thesis
    by (simp only: enc z)
qed

section \<open>The two address formats\<close>

lemma charset_length: "length CHARSET = 32"
  by (simp add: CHARSET_def)

lemma charset_distinct: "distinct CHARSET"
  by (simp add: CHARSET_def)

lemma list_index_charset:
  assumes "k < 32"
  shows "list_index CHARSET (CHARSET ! k) = Some k"
  using assms takeWhile_neq_nth [OF charset_distinct, of k]
  by (simp add: list_index_def charset_length)

lemma decode_base32_text:
  assumes "in_range 5 ds"
  shows "decode_base32 (base32_text ds) = Some ds"
  using assms
proof (induction ds)
  case Nil
  then show ?case
    by (simp add: base32_text_def)
next
  case (Cons d ds)
  then have d: "0 \<le> d" "d < 32" and ds: "in_range 5 ds"
    by (simp_all add: in_range_def)
  then have "nat d < 32"
    by simp
  then have "list_index CHARSET (CHARSET ! nat d) = Some (nat d)"
    by (rule list_index_charset)
  moreover have "decode_base32 (map (\<lambda>d. CHARSET ! nat d) ds) = Some ds"
    using Cons.IH [OF ds] by (simp add: base32_text_def)
  ultimately show ?case
    using d by (simp add: base32_text_def)
qed

lemma length_checksum5: "length (checksum5 payload5) = 8"
  by (simp add: checksum5_def)

lemma cashaddr_address_payload_encoded:
  assumes "in_range 5 payload5"
  shows "cashaddr_address_payload (''bitcoincash:'' @ base32_text (payload5 @ checksum5 payload5))
           = convert_bits payload5 5 8 False"
proof -
  let ?a = "''bitcoincash:'' @ base32_text (payload5 @ checksum5 payload5)"
  have "in_range 5 (payload5 @ checksum5 payload5)"
    using assms in_range_checksum5 by (simp add: in_range_append)
  then have d: "decode_base32 (base32_text (payload5 @ checksum5 payload5))
                  = Some (payload5 @ checksum5 payload5)"
    by (rule decode_base32_text)
  have t: "take 12 ?a = ''bitcoincash:''" and r: "drop 12 ?a = base32_text (payload5 @ checksum5 payload5)"
    by simp_all
  have "take (length (payload5 @ checksum5 payload5) - 8) (payload5 @ checksum5 payload5) = payload5"
    by (simp add: length_checksum5)
  then show ?thesis
    unfolding cashaddr_address_payload_def t r d by simp
qed

lemma public_key_to_cashaddr_address_text:
  assumes "convert_bits (map uint ([0] @ hash160 P pubkey)) 8 5 True = Some payload5"
    and "in_range 5 payload5"
  shows "public_key_to_cashaddr_address P pubkey
           = Some (Inr (''bitcoincash:'' @ base32_text (payload5 @ checksum5 payload5)))"
proof -
  have "in_range 5 (payload5 @ checksum5 payload5)"
    using assms(2) in_range_checksum5 by (simp add: in_range_append)
  then have "encode_base32 (payload5 @ create_checksum ''bitcoincash'' payload5)
      = Inr (base32_text (payload5 @ checksum5 payload5))"
    by (simp only: create_checksum_eq encode_base32_in_range)
  then show ?thesis
    using assms(1) by (simp add: public_key_to_cashaddr_address_def Let_def)
qed

text \<open>
  Claim C9. For every public key, the legacy address Base58-decodes to the version byte
  \<open>0x00\<close>, \<open>hash160 = RIPEMD160(SHA256(pubkey))\<close> and the four checksum bytes; where the hash
  has 20 bytes, the first 21 of these 25 bytes are \<open>0x00 || hash160\<close>. The CashAddr address
  of the same key is returned, and its 5-bit payload, read back from the text and regrouped
  to bytes, is the same \<open>0x00 || hash160\<close>.
\<close>

theorem legacy_and_cashaddr_same_hash160:
  "b58decode (public_key_to_legacy_address P pubkey)
     = Inr ([0] @ hash160 P pubkey @ take 4 (sha256 P (sha256 P ([0] @ hash160 P pubkey))))
   \<and> (length (hash160 P pubkey) = 20
        \<longrightarrow> legacy_address_payload (public_key_to_legacy_address P pubkey)
              = Inr ([0] @ hash160 P pubkey))
   \<and> (\<exists>addr. public_key_to_cashaddr_address P pubkey = Some (Inr addr)
        \<and> cashaddr_address_payload addr = Some (map uint ([0] @ hash160 P pubkey)))"
proof (intro conjI impI)
  show l: "b58decode (public_key_to_legacy_address P pubkey)
     = Inr ([0] @ hash160 P pubkey @ take 4 (sha256 P (sha256 P ([0] @ hash160 P pubkey))))"
    by (simp add: public_key_to_legacy_address_def Let_def b58decode_b58encode hash160_def)
  show "legacy_address_payload (public_key_to_legacy_address P pubkey)
          = Inr ([0] @ hash160 P pubkey)"
    if "length (hash160 P pubkey) = 20"
    using that by (simp add: legacy_address_payload_def l ebind_def)
  have "(0::nat) < 5" "(5::nat) \<le> 8"
    by simp_all
  from convert_bits_roundtrip [OF this in_range_bytes, of "[0] @ hash160 P pubkey"]
  obtain payload5
    where c: "convert_bits (map uint ([0] @ hash160 P pubkey)) 8 5 True = Some payload5"
      and r: "in_range 5 payload5"
      and b: "convert_bits payload5 5 8 False = Some (map uint ([0] @ hash160 P pubkey))"
    by blast
  let ?addr = "''bitcoincash:'' @ base32_text (payload5 @ checksum5 payload5)"
  have "public_key_to_cashaddr_address P pubkey = Some (Inr ?addr)"
    using c r by (rule public_key_to_cashaddr_address_text)
  moreover have "cashaddr_address_payload ?addr = Some (map uint ([0] @ hash160 P pubkey))"
    using cashaddr_address_payload_encoded [OF r] b by simp
  ultimately show "\<exists>addr. public_key_to_cashaddr_address P pubkey = Some (Inr addr)
        \<and> cashaddr_address_payload addr = Some (map uint ([0] @ hash160 P pubkey))"
    by blast
qed

lemma vector_generator_addresses:
  "length (hash160 vector_prims vector_generator_pubkey) = 20"
  "public_key_to_legacy_address vector_prims vector_generator_pubkey
     = ''1BgGZ9tcN4rm9KBzDn7KprQz87SZ26SAMH''"
  "hash160 vector_prims vector_generator_pubkey
     = [0x75, 0x1e, 0x76, 0xe8, 0x19, 0x91, 0x96, 0xd4, 0x54, 0x94,
        0x1c, 0x45, 0xd1, 0xb3, 0xa3, 0x23, 0xf1, 0x43, 0x3b, 0xd6]"
  by code_simp+

theorem legacy_and_cashaddr_same_hash160_witness:
  "legacy_address_payload ''1BgGZ9tcN4rm9KBzDn7KprQz87SZ26SAMH''
     = Inr ([0] @ [0x75, 0x1e, 0x76, 0xe8, 0x19, 0x91, 0x96, 0xd4, 0x54, 0x94,
                   0x1c, 0x45, 0xd1, 0xb3, 0xa3, 0x23, 0xf1, 0x43, 0x3b, 0xd6])
   \<and> cashaddr_address_payload ''bitcoincash:qp63uahgrxged4z5jswyt5dn5v3lzsem6cy4spdc2h''
     = Some (map uint ([0] @ [0x75 :: byte, 0x1e, 0x76, 0xe8, 0x19, 0x91, 0x96, 0xd4, 0x54, 0x94,
                              0x1c, 0x45, 0xd1, 0xb3, 0xa3, 0x23, 0xf1, 0x43, 0x3b, 0xd6]))"
proof -
  note t = legacy_and_cashaddr_same_hash160 [of vector_prims vector_generator_pubkey]
  from t [THEN conjunct2, THEN conjunct1, rule_format, OF vector_generator_addresses(1)]
  have a: "legacy_address_payload ''1BgGZ9tcN4rm9KBzDn7KprQz87SZ26SAMH''
     = Inr ([0] @ [0x75, 0x1e, 0x76, 0xe8, 0x19, 0x91, 0x96, 0xd4, 0x54, 0x94,
                   0x1c, 0x45, 0xd1, 0xb3, 0xa3, 0x23, 0xf1, 0x43, 0x3b, 0xd6])"
    by (simp only: vector_generator_addresses(2,3))
  from t [THEN conjunct2, THEN conjunct2]
  obtain addr where "public_key_to_cashaddr_address vector_prims vector_generator_pubkey
        = Some (Inr addr)"
    and "cashaddr_address_payload addr
        = Some (map uint ([0] @ hash160 vector_prims vector_generator_pubkey))"
    by (elim exE conjE)
  then have "cashaddr_address_payload ''bitcoincash:qp63uahgrxged4z5jswyt5dn5v3lzsem6cy4spdc2h''
     = Some (map uint ([0] @ [0x75 :: byte, 0x1e, 0x76, 0xe8, 0x19, 0x91, 0x96, 0xd4, 0x54, 0x94,
                              0x1c, 0x45, 0xd1, 0xb3, 0xa3, 0x23, 0xf1, 0x43, 0x3b, 0xd6]))"
    by (simp only: vector_cashaddr vector_generator_addresses(3) option.inject sum.inject)
  with a show ?thesis
    by (rule conjI)
qed

end
